theory Spec2Isabelle
  imports Complex_Main "HOL-Library.Multiset"
begin

section \<open>Geocoin Carrier: the board, the caches and the session state\<close>

text \<open>
  The development follows \<^verbatim>\<open>src/board.ts\<close> and the last version of \<^verbatim>\<open>src/main.ts\<close>
  (the one with \<^verbatim>\<open>saveGameState\<close> and \<^verbatim>\<open>loadGameState\<close>).

  Conventions of the embedding.
  \<^item> A JavaScript \<^verbatim>\<open>number\<close> that holds a grid index or a serial is an \<^typ>\<open>int\<close>; a
    latitude, a longitude, the tile width and a luck value are exact rationals
    (\<^typ>\<open>rat\<close>), so rounding of IEEE doubles is not part of the model.
  \<^item> A JavaScript array is a list whose last element is the one \<^verbatim>\<open>pop\<close> removes and
    after which \<^verbatim>\<open>push\<close> appends.
  \<^item> A JavaScript \<^verbatim>\<open>Map\<close> is an association list in insertion order; a \<^verbatim>\<open>Set\<close> is a
    list in insertion order.
  \<^item> The module \<^verbatim>\<open>luck.ts\<close> and the method \<^verbatim>\<open>Board.getCellAtKey\<close> are used by
    \<^verbatim>\<open>main.ts\<close> but their source is not in the repository: both are parameters of
    the model (the record \<open>Deps\<close>).
  \<^item> The fields of a cell are called \<open>cell_i\<close> and \<open>cell_j\<close> (for \<^verbatim>\<open>i\<close> and \<^verbatim>\<open>j\<close>).
\<close>

subsection \<open>JavaScript containers\<close>

text \<open>\<^verbatim>\<open>Map.prototype.get\<close>: the value stored under a key, \<open>None\<close> for \<^verbatim>\<open>undefined\<close>.\<close>

fun Map_get :: "'k \<Rightarrow> ('k \<times> 'v) list \<Rightarrow> 'v option" where
  "Map_get k [] = None"
| "Map_get k ((k', v) # m) = (if k' = k then Some v else Map_get k m)"

definition Map_has :: "'k \<Rightarrow> ('k \<times> 'v) list \<Rightarrow> bool" where
  "Map_has k m = (case Map_get k m of None \<Rightarrow> False | Some v \<Rightarrow> True)"

text \<open>\<^verbatim>\<open>Map.prototype.set\<close>: an existing key keeps its place, a new key goes last.\<close>

fun Map_set :: "'k \<Rightarrow> 'v \<Rightarrow> ('k \<times> 'v) list \<Rightarrow> ('k \<times> 'v) list" where
  "Map_set k v [] = [(k, v)]"
| "Map_set k v ((k', v') # m) = (if k' = k then (k, v) # m else (k', v') # Map_set k v m)"

definition Map_delete :: "'k \<Rightarrow> ('k \<times> 'v) list \<Rightarrow> ('k \<times> 'v) list" where
  "Map_delete k m = filter (\<lambda>entry. fst entry \<noteq> k) m"

definition Set_has :: "'a \<Rightarrow> 'a list \<Rightarrow> bool" where
  "Set_has x xs = (x \<in> set xs)"

definition Set_add :: "'a \<Rightarrow> 'a list \<Rightarrow> 'a list" where
  "Set_add x xs = (if Set_has x xs then xs else xs @ [x])"

text \<open>\<^verbatim>\<open>Array.prototype.pop\<close> on a non-empty array and \<^verbatim>\<open>push\<close>.\<close>

definition Array_push :: "'a \<Rightarrow> 'a list \<Rightarrow> 'a list" where
  "Array_push x xs = xs @ [x]"

subsection \<open>Numbers as text\<close>

definition digit_char :: "nat \<Rightarrow> char" where
  "digit_char d = char_of (48 + d)"

function show_nat :: "nat \<Rightarrow> string" where
  "show_nat n = (if n < 10 then [digit_char n] else show_nat (n div 10) @ [digit_char (n mod 10)])"
  by pat_completeness auto
termination
  by (relation "measure (\<lambda>n. n)") auto

declare show_nat.simps [simp del]

text \<open>\<^verbatim>\<open>Number.prototype.toString\<close> on an integer value.\<close>

definition show_int :: "int \<Rightarrow> string" where
  "show_int k = (if k < 0 then CHR ''-'' # show_nat (nat (- k)) else show_nat (nat k))"

subsection \<open>board.ts\<close>

record Cell =
  cell_i :: int
  cell_j :: int

record Coin =
  spawnLocation :: Cell
  serial :: int

record Cache =
  coins :: "Coin list"
  serialNumber :: int
  location :: Cell

text \<open>
  A cell object lives in the heap; \<^verbatim>\<open>knownCells\<close> maps a key to the address of the
  canonical object. An address is the position of the object in the list of all
  cell objects allocated so far.
\<close>

type_synonym ref = nat
type_synonym heap = "Cell list"

record Board =
  tileWidth :: rat
  tileVisibilityRadius :: int
  knownCells :: "(string \<times> ref) list"

definition new_Board :: "rat \<Rightarrow> int \<Rightarrow> Board" where
  "new_Board tw r = \<lparr> tileWidth = tw, tileVisibilityRadius = r, knownCells = [] \<rparr>"

text \<open>\<^verbatim>\<open>[i, j].toString()\<close>\<close>

definition knownCells_key :: "Cell \<Rightarrow> string" where
  "knownCells_key c = show_int (cell_i c) @ '','' @ show_int (cell_j c)"

text \<open>
  \<^verbatim>\<open>getCanonicalCell\<close>: the argument is passed by its fields; the object literal
  \<^verbatim>\<open>{ i, j }\<close> allocates. The result is the address read back from the map.
\<close>

definition getCanonicalCell :: "Cell \<Rightarrow> Board \<times> heap \<Rightarrow> ref \<times> Board \<times> heap" where
  "getCanonicalCell cell bh =
     (let b = fst bh; h = snd bh; key = knownCells_key cell in
      if \<not> Map_has key (knownCells b)
      then (length h, b\<lparr>knownCells := Map_set key (length h) (knownCells b)\<rparr>, h @ [cell])
      else (case Map_get key (knownCells b) of Some r \<Rightarrow> (r, b, h) | None \<Rightarrow> (length h, b, h)))"

record LatLng =
  lat :: rat
  lng :: rat

text \<open>The calls of \<^verbatim>\<open>getCanonicalCell\<close> one after the other, as a program would make them.\<close>

fun canonicalizeAll :: "Cell list \<Rightarrow> Board \<times> heap \<Rightarrow> ref list \<times> Board \<times> heap" where
  "canonicalizeAll [] bh = ([], bh)"
| "canonicalizeAll (c # cs) bh =
     (let (r, bh') = getCanonicalCell c bh; (rs, bh'') = canonicalizeAll cs bh' in (r # rs, bh''))"

text \<open>
  \<^verbatim>\<open>getCellForPoint\<close> and \<^verbatim>\<open>getCellsNearPoint\<close> hand their cells to
  \<^verbatim>\<open>getCanonicalCell\<close>. The callers in \<^verbatim>\<open>main.ts\<close> only read the fields of the cells they
  get, so these two functions are modelled by the field values of the cells they return (lemma
  \<open>getCanonicalCell_fields\<close> below: the canonical object has the fields of the argument). The
  order is that of the two loops, \<^verbatim>\<open>i\<close> outside and \<^verbatim>\<open>j\<close> inside.
\<close>

definition getCellForPoint :: "Board \<Rightarrow> LatLng \<Rightarrow> Cell" where
  "getCellForPoint b point =
     \<lparr> cell_i = \<lfloor>lat point / tileWidth b\<rfloor>, cell_j = \<lfloor>lng point / tileWidth b\<rfloor> \<rparr>"

definition getCellsNearPoint :: "Board \<Rightarrow> LatLng \<Rightarrow> Cell list" where
  "getCellsNearPoint b point =
     (let originCell = getCellForPoint b point; r = tileVisibilityRadius b in
      concat (map (\<lambda>di. map (\<lambda>dj. \<lparr> cell_i = cell_i originCell + di, cell_j = cell_j originCell + dj \<rparr>)
                               [- r..r])
                  [- r..r]))"

function createNewCache_loop :: "Cell \<Rightarrow> int \<Rightarrow> int \<Rightarrow> Cache \<Rightarrow> Cache" where
  "createNewCache_loop cell numCoins n newCache =
     (if n < numCoins
      then createNewCache_loop cell numCoins (n + 1)
             (newCache\<lparr> coins := Array_push \<lparr> spawnLocation = cell, serial = serialNumber newCache \<rparr>
                                            (coins newCache),
                        serialNumber := serialNumber newCache + 1 \<rparr>)
      else newCache)"
  by pat_completeness auto
termination
  by (relation "measure (\<lambda>(cell, numCoins, n, newCache). nat (numCoins - n))") auto

declare createNewCache_loop.simps [simp del]

definition createNewCache :: "Cell \<Rightarrow> int \<Rightarrow> Cache" where
  "createNewCache cell numCoins =
     createNewCache_loop cell numCoins 0 \<lparr> coins = [], serialNumber = 0, location = cell \<rparr>"

subsection \<open>main.ts: constants and state\<close>

definition OAKES_CLASSROOM :: LatLng where
  "OAKES_CLASSROOM = \<lparr> lat = 369894 / 10000, lng = - 1220627 / 10000 \<rparr>"

definition TILE_DEGREES :: rat where
  "TILE_DEGREES = 1 / 10000"

definition NEIGHBORHOOD_SIZE :: int where
  "NEIGHBORHOOD_SIZE = 8"

definition CACHE_SPAWN_PROBABILITY :: rat where
  "CACHE_SPAWN_PROBABILITY = 1 / 10"

definition board :: Board where
  "board = new_Board TILE_DEGREES NEIGHBORHOOD_SIZE"

text \<open>
  What \<^verbatim>\<open>main.ts\<close> uses and the repository does not contain: \<^verbatim>\<open>luck\<close> (from
  \<^verbatim>\<open>luck.ts\<close>), a function from a string to a number, and \<^verbatim>\<open>board.getCellAtKey\<close>, which
  turns a key into a cell (\<^verbatim>\<open>board.ts\<close> has no such method).
\<close>

record Deps =
  luck :: "string \<Rightarrow> rat"
  getCellAtKey :: "string \<Rightarrow> Cell"

text \<open>The value a JSON text denotes.\<close>

datatype json =
    JNull
  | JBool bool
  | JNum rat
  | JStr string
  | JArr "json list"
  | JObj "(string \<times> json) list"

text \<open>
  The string stored under \<^verbatim>\<open>"geocoinCarrierGameState"\<close>, as far as \<^verbatim>\<open>loadGameState\<close> can
  tell strings apart: the empty string (which \<^verbatim>\<open>if (savedState)\<close> takes for false), a string
  that \<^verbatim>\<open>JSON.parse\<close> rejects, or a JSON text, given by the value \<^verbatim>\<open>JSON.parse\<close> returns
  for it. \<^verbatim>\<open>JSON.stringify\<close> of a value is the JSON text of that value.
\<close>

datatype stored = EmptyString | NotJSON | JSONText json

text \<open>
  \<open>SyntaxError\<close> and \<open>TypeError\<close> are the exceptions of JavaScript. \<open>IllTyped\<close> is no
  exception: it says that the program goes on with a value that its TypeScript types exclude
  (a wallet that is not an array of coins, say), where the typed state below cannot follow it.
\<close>

datatype error = SyntaxError | TypeError | IllTyped

text \<open>
  The global variables. An entry of \<open>activeCacheRects\<close> stands for the rectangle on the map
  together with the cache object that the click handlers of its popup hold
  (\<^verbatim>\<open>createPopupContent(cache, cell)\<close>, where \<^verbatim>\<open>cell\<close> is \<^verbatim>\<open>cache.location\<close> at both call
  sites).
\<close>

record Game =
  playerWallet :: "Coin list"
  cacheStates :: "(string \<times> Coin list) list"
  activeCacheRects :: "(string \<times> Cache) list"
  playerMarker :: LatLng
  movementHistory :: "LatLng list"
  localStorage :: "stored option"

definition initialGame :: "stored option \<Rightarrow> Game" where
  "initialGame item =
     \<lparr> playerWallet = [], cacheStates = [], activeCacheRects = [],
       playerMarker = OAKES_CLASSROOM, movementHistory = [OAKES_CLASSROOM],
       localStorage = item \<rparr>"

subsection \<open>main.ts: helpers\<close>

definition cellToString :: "Cell \<Rightarrow> string" where
  "cellToString cell = show_int (cell_i cell) @ '':'' @ show_int (cell_j cell)"


definition cellLuck :: "Deps \<Rightarrow> Cell \<Rightarrow> rat" where
  "cellLuck d cell = luck d (cellToString cell)"

subsection \<open>main.ts: saving\<close>

definition cell_json :: "Cell \<Rightarrow> json" where
  "cell_json c = JObj [(''i'', JNum (of_int (cell_i c))), (''j'', JNum (of_int (cell_j c)))]"

definition coin_json :: "Coin \<Rightarrow> json" where
  "coin_json c =
     JObj [(''spawnLocation'', cell_json (spawnLocation c)), (''serial'', JNum (of_int (serial c)))]"

definition latLng_json :: "LatLng \<Rightarrow> json" where
  "latLng_json p = JObj [(''lat'', JNum (lat p)), (''lng'', JNum (lng p))]"

definition entry_json :: "string \<times> Coin list \<Rightarrow> json" where
  "entry_json e = JArr [JStr (fst e), JArr (map coin_json (snd e))]"

definition gameState_json :: "Game \<Rightarrow> json" where
  "gameState_json s =
     JObj [(''playerWallet'', JArr (map coin_json (playerWallet s))),
           (''cacheStates'', JArr (map entry_json (cacheStates s))),
           (''movementHistory'', JArr (map latLng_json (movementHistory s)))]"

definition saveGameState :: "Game \<Rightarrow> Game" where
  "saveGameState s = s\<lparr> localStorage := Some (JSONText (gameState_json s)) \<rparr>"

subsection \<open>main.ts: spawning, restoring and evicting caches\<close>

definition spawnCache :: "Deps \<Rightarrow> Cell \<Rightarrow> Game \<Rightarrow> Game" where
  "spawnCache d cellToSpawn s =
     (let pointValue = \<lfloor>cellLuck d cellToSpawn * 100\<rfloor>;
          cache = createNewCache cellToSpawn pointValue
      in s\<lparr> cacheStates := Map_set (cellToString cellToSpawn) (coins cache) (cacheStates s),
             activeCacheRects := Map_set (cellToString cellToSpawn) cache (activeCacheRects s) \<rparr>)"

text \<open>
  \<^verbatim>\<open>cacheStates.get(...)!\<close> is \<^verbatim>\<open>undefined\<close> for a key without entry, and the spread
  \<^verbatim>\<open>[...savedCoins]\<close> of \<^verbatim>\<open>undefined\<close> throws a TypeError.
\<close>

definition restoreCache :: "Cell \<Rightarrow> Game \<Rightarrow> error + Game" where
  "restoreCache cell s =
     (case Map_get (cellToString cell) (cacheStates s) of
        None \<Rightarrow> Inl TypeError
      | Some savedCoins \<Rightarrow>
          Inr (s\<lparr> activeCacheRects :=
                   Map_set (cellToString cell)
                     \<lparr> coins = savedCoins, serialNumber = int (length savedCoins), location = cell \<rparr>
                     (activeCacheRects s) \<rparr>))"

definition spawnCacheIfNeeded :: "Deps \<Rightarrow> Cell \<Rightarrow> string \<Rightarrow> Game \<Rightarrow> Game" where
  "spawnCacheIfNeeded d cell cellKey s =
     (if \<not> Map_has cellKey (cacheStates s)
      then (if cellLuck d cell < CACHE_SPAWN_PROBABILITY then spawnCache d cell s else s)
      else s)"

definition restoreCacheIfNeeded :: "Cell \<Rightarrow> string \<Rightarrow> Game \<Rightarrow> error + Game" where
  "restoreCacheIfNeeded cell cellKey s =
     (if Map_has cellKey (cacheStates s) \<and> \<not> Map_has cellKey (activeCacheRects s)
      then restoreCache cell s
      else Inr s)"

definition getVisibleCells :: "LatLng \<Rightarrow> string list" where
  "getVisibleCells point =
     fold (\<lambda>neighbor visibleCells. Set_add (cellToString neighbor) visibleCells)
          (getCellsNearPoint board point) []"

definition removeInactiveCaches :: "string list \<Rightarrow> Game \<Rightarrow> Game" where
  "removeInactiveCaches visibleCells s =
     s\<lparr> activeCacheRects :=
          fold (\<lambda>entry rects. if \<not> Set_has (fst entry) visibleCells
                               then Map_delete (fst entry) rects else rects)
               (activeCacheRects s) (activeCacheRects s) \<rparr>"

fun populateMap_loop :: "Deps \<Rightarrow> string list \<Rightarrow> Game \<Rightarrow> error + Game" where
  "populateMap_loop d [] s = Inr s"
| "populateMap_loop d (cellKey # rest) s =
     (let cell = getCellAtKey d cellKey in
      case restoreCacheIfNeeded cell cellKey (spawnCacheIfNeeded d cell cellKey s) of
        Inl e \<Rightarrow> Inl e
      | Inr s' \<Rightarrow> populateMap_loop d rest s')"

definition populateMap :: "Deps \<Rightarrow> Game \<Rightarrow> error + Game" where
  "populateMap d s =
     (let visibleCells = getVisibleCells (playerMarker s) in
      case populateMap_loop d visibleCells s of
        Inl e \<Rightarrow> Inl e
      | Inr s' \<Rightarrow> Inr (removeInactiveCaches visibleCells s'))"

subsection \<open>main.ts: the event handlers\<close>

definition movePlayer :: "Deps \<Rightarrow> rat \<Rightarrow> rat \<Rightarrow> Game \<Rightarrow> error + Game" where
  "movePlayer d deltaLat deltaLng s =
     (let point = \<lparr> lat = lat (playerMarker s) + deltaLat, lng = lng (playerMarker s) + deltaLng \<rparr>
      in populateMap d (s\<lparr> playerMarker := point,
                            movementHistory := Array_push point (movementHistory s) \<rparr>))"

text \<open>The success callback of \<^verbatim>\<open>watchPosition\<close>.\<close>

definition watchPosition_success :: "Deps \<Rightarrow> rat \<Rightarrow> rat \<Rightarrow> Game \<Rightarrow> error + Game" where
  "watchPosition_success d latitude longitude s =
     (let newLocation = \<lparr> lat = latitude, lng = longitude \<rparr>
      in populateMap d (s\<lparr> playerMarker := newLocation,
                            movementHistory := Array_push newLocation (movementHistory s) \<rparr>))"

text \<open>
  The click handlers of the popup of the rectangle stored under \<open>key\<close>. Without such a
  rectangle there is no popup and no click.
\<close>

definition collect :: "string \<Rightarrow> Game \<Rightarrow> Game" where
  "collect key s =
     (case Map_get key (activeCacheRects s) of
        None \<Rightarrow> s
      | Some cache \<Rightarrow>
          if length (coins cache) > 0
          then (let coin = last (coins cache);
                    cache' = cache\<lparr> coins := butlast (coins cache) \<rparr>
                in saveGameState
                     (s\<lparr> activeCacheRects := Map_set key cache' (activeCacheRects s),
                         playerWallet := Array_push coin (playerWallet s),
                         cacheStates := Map_set (cellToString (location cache)) (coins cache')
                                          (cacheStates s) \<rparr>))
          else s)"

definition deposit :: "string \<Rightarrow> Game \<Rightarrow> Game" where
  "deposit key s =
     (case Map_get key (activeCacheRects s) of
        None \<Rightarrow> s
      | Some cache \<Rightarrow>
          if length (playerWallet s) > 0
          then (let coin = last (playerWallet s);
                    cache' = cache\<lparr> coins := Array_push coin (coins cache) \<rparr>
                in saveGameState
                     (s\<lparr> activeCacheRects := Map_set key cache' (activeCacheRects s),
                         playerWallet := butlast (playerWallet s),
                         cacheStates := Map_set (cellToString (location cache)) (coins cache')
                                          (cacheStates s) \<rparr>))
          else s)"

text \<open>\<^verbatim>\<open>String.prototype.toLowerCase\<close> on the letters A to Z.\<close>

definition toLowerCase :: "string \<Rightarrow> string" where
  "toLowerCase str =
     map (\<lambda>c. if 65 \<le> (of_char c :: nat) \<and> (of_char c :: nat) \<le> 90
                then char_of ((of_char c :: nat) + 32) else c) str"

text \<open>
  The click handler of the reset button; \<open>confirmation\<close> is what \<^verbatim>\<open>prompt\<close> returned
  (\<open>None\<close> for \<^verbatim>\<open>null\<close>). \<^verbatim>\<open>movementHistory.length = 1\<close> keeps the first entry of a non-empty
  array; on an empty array it makes an array with a hole, which is no list of positions.
\<close>

definition resetGame :: "Deps \<Rightarrow> string option \<Rightarrow> Game \<Rightarrow> error + Game" where
  "resetGame d confirmation s =
     (if map_option toLowerCase confirmation = Some ''yes''
      then (if movementHistory s = [] then Inl IllTyped
            else populateMap d
                   (saveGameState
                      (s\<lparr> playerWallet := [],
                          cacheStates := fold (\<lambda>entry m. Map_set (fst entry) (snd entry) m)
                                              (cacheStates s) (cacheStates s),
                          activeCacheRects := [],
                          movementHistory := take 1 (movementHistory s),
                          playerMarker := OAKES_CLASSROOM \<rparr>)))
      else Inr s)"

subsection \<open>main.ts: loading\<close>

text \<open>
  Reading a property of a value that is not \<^verbatim>\<open>null\<close>: \<open>None\<close> is \<^verbatim>\<open>undefined\<close>. None of the
  property names read by \<^verbatim>\<open>loadGameState\<close> exists on a number, a boolean, a string or an
  array.
\<close>

fun getProp :: "string \<Rightarrow> json \<Rightarrow> json option" where
  "getProp name (JObj kvs) = map_of kvs name"
| "getProp name v = None"

text \<open>What the array pattern \<^verbatim>\<open>[cellKey, coins]\<close> accepts: an array or a string.\<close>

fun iterable :: "json \<Rightarrow> bool" where
  "iterable (JArr vs) = True"
| "iterable (JStr str) = True"
| "iterable v = False"

text \<open>
  The places where \<^verbatim>\<open>loadGameState\<close> throws a TypeError before it calls
  \<^verbatim>\<open>populateMap\<close>, in the order of the source: a property of \<^verbatim>\<open>null\<close>;
  \<^verbatim>\<open>gameState.cacheStates.forEach\<close> on anything but an array; the array pattern on an entry
  that is not iterable; \<^verbatim>\<open>gameState.movementHistory.map\<close> on anything but an array;
  \<^verbatim>\<open>latLng.lat\<close> on \<^verbatim>\<open>null\<close>.
\<close>

definition loadGameState_throws :: "json \<Rightarrow> bool" where
  "loadGameState_throws gameState =
     (if gameState = JNull then True
      else (case getProp ''cacheStates'' gameState of
              Some (JArr entries) \<Rightarrow>
                if list_all iterable entries
                then (case getProp ''movementHistory'' gameState of
                        Some (JArr points) \<Rightarrow> JNull \<in> set points
                      | _ \<Rightarrow> True)
                else True
            | _ \<Rightarrow> True))"

text \<open>The parsed values as values of the declared types.\<close>

definition is_integer :: "rat \<Rightarrow> bool" where
  "is_integer r = (of_int \<lfloor>r\<rfloor> = r)"

definition as_Cell :: "json \<Rightarrow> Cell option" where
  "as_Cell v =
     (case (getProp ''i'' v, getProp ''j'' v) of
        (Some (JNum a), Some (JNum b)) \<Rightarrow>
          if is_integer a \<and> is_integer b then Some \<lparr> cell_i = \<lfloor>a\<rfloor>, cell_j = \<lfloor>b\<rfloor> \<rparr> else None
      | _ \<Rightarrow> None)"

definition as_Coin :: "json \<Rightarrow> Coin option" where
  "as_Coin v =
     (case (getProp ''spawnLocation'' v, getProp ''serial'' v) of
        (Some c, Some (JNum n)) \<Rightarrow>
          (case as_Cell c of
             Some cell \<Rightarrow> if is_integer n then Some \<lparr> spawnLocation = cell, serial = \<lfloor>n\<rfloor> \<rparr> else None
           | None \<Rightarrow> None)
      | _ \<Rightarrow> None)"

fun as_array :: "(json \<Rightarrow> 'a option) \<Rightarrow> json list \<Rightarrow> 'a list option" where
  "as_array f [] = Some []"
| "as_array f (v # vs) =
     (case f v of None \<Rightarrow> None
      | Some x \<Rightarrow> (case as_array f vs of None \<Rightarrow> None | Some xs \<Rightarrow> Some (x # xs)))"

definition as_Coins :: "json option \<Rightarrow> Coin list option" where
  "as_Coins v = (case v of Some (JArr vs) \<Rightarrow> as_array as_Coin vs | _ \<Rightarrow> None)"

definition as_entry :: "json \<Rightarrow> (string \<times> Coin list) option" where
  "as_entry v =
     (case v of
        JArr (JStr key # cs # rest) \<Rightarrow>
          (case as_Coins (Some cs) of Some coins' \<Rightarrow> Some (key, coins') | None \<Rightarrow> None)
      | _ \<Rightarrow> None)"

definition as_entries :: "json option \<Rightarrow> (string \<times> Coin list) list option" where
  "as_entries v = (case v of Some (JArr vs) \<Rightarrow> as_array as_entry vs | _ \<Rightarrow> None)"

text \<open>\<^verbatim>\<open>leaflet.latLng(latLng.lat, latLng.lng)\<close> for two numbers.\<close>

definition as_LatLng :: "json \<Rightarrow> LatLng option" where
  "as_LatLng v =
     (case (getProp ''lat'' v, getProp ''lng'' v) of
        (Some (JNum a), Some (JNum b)) \<Rightarrow> Some \<lparr> lat = a, lng = b \<rparr>
      | _ \<Rightarrow> None)"

definition as_LatLngs :: "json option \<Rightarrow> LatLng list option" where
  "as_LatLngs v = (case v of Some (JArr vs) \<Rightarrow> as_array as_LatLng vs | _ \<Rightarrow> None)"

text \<open>
  \<^verbatim>\<open>loadGameState\<close>. After the assignments the player is put on the last position of the
  history, if there is one, and \<^verbatim>\<open>populateMap\<close> runs. Without a stored string, or with the
  empty one, nothing happens at all.
\<close>

definition loadGameState :: "Deps \<Rightarrow> Game \<Rightarrow> error + Game" where
  "loadGameState d s =
     (case localStorage s of
        None \<Rightarrow> Inr s
      | Some EmptyString \<Rightarrow> Inr s
      | Some NotJSON \<Rightarrow> Inl SyntaxError
      | Some (JSONText gameState) \<Rightarrow>
          if loadGameState_throws gameState then Inl TypeError
          else (case (as_Coins (getProp ''playerWallet'' gameState),
                      as_entries (getProp ''cacheStates'' gameState),
                      as_LatLngs (getProp ''movementHistory'' gameState)) of
                  (Some wallet, Some entries, Some points) \<Rightarrow>
                    (let s1 = s\<lparr> playerWallet := wallet,
                                  cacheStates := fold (\<lambda>entry m. Map_set (fst entry) (snd entry) m)
                                                      entries [],
                                  movementHistory := points \<rparr>;
                         s2 = (if length points > 0 then s1\<lparr> playerMarker := last points \<rparr> else s1)
                     in populateMap d s2)
                | _ \<Rightarrow> Inl IllTyped))"

text \<open>The program as a whole: the page is loaded with some stored item, then events arrive.\<close>

datatype event =
    MovePlayer rat rat
  | WatchPosition rat rat
  | Collect string
  | Deposit string
  | Reset "string option"

fun handle :: "Deps \<Rightarrow> event \<Rightarrow> Game \<Rightarrow> error + Game" where
  "handle d (MovePlayer deltaLat deltaLng) s = movePlayer d deltaLat deltaLng s"
| "handle d (WatchPosition latitude longitude) s = watchPosition_success d latitude longitude s"
| "handle d (Collect key) s = Inr (collect key s)"
| "handle d (Deposit key) s = Inr (deposit key s)"
| "handle d (Reset confirmation) s = resetGame d confirmation s"

fun run :: "Deps \<Rightarrow> event list \<Rightarrow> Game \<Rightarrow> error + Game" where
  "run d [] s = Inr s"
| "run d (e # es) s = (case handle d e s of Inl err \<Rightarrow> Inl err | Inr s' \<Rightarrow> run d es s')"

text \<open>
  A state is reachable when the page load and some events (none of which threw) lead to it.
\<close>

definition reachable :: "Deps \<Rightarrow> Game \<Rightarrow> bool" where
  "reachable d s =
     (\<exists>item es s0. loadGameState d (initialGame item) = Inr s0 \<and> run d es s0 = Inr s)"

subsection \<open>An instance of the two missing functions\<close>

text \<open>
  The theorems below hold for every \<open>Deps\<close> that satisfies their hypotheses. That such
  \<open>Deps\<close> exist is shown with the following instance: \<open>cellOfKey\<close> reads a key
  \<^verbatim>\<open>"i:j"\<close> back (it inverts \<open>cellToString\<close>, lemma \<open>cellOfKey_cellToString\<close>), and
  \<open>sampleLuck\<close> is a luck function that lets caches appear in two cells next to the start
  position and nowhere else.
\<close>

definition parse_nat :: "string \<Rightarrow> nat" where
  "parse_nat str = foldl (\<lambda>n c. 10 * n + (of_char c - 48)) 0 str"

definition parse_int :: "string \<Rightarrow> int" where
  "parse_int str =
     (case str of
        [] \<Rightarrow> 0
      | c # rest \<Rightarrow> if c = CHR ''-'' then - int (parse_nat rest) else int (parse_nat str))"

definition cellOfKey :: "string \<Rightarrow> Cell" where
  "cellOfKey key =
     \<lparr> cell_i = parse_int (takeWhile (\<lambda>c. c \<noteq> CHR '':'') key),
       cell_j = parse_int (drop 1 (dropWhile (\<lambda>c. c \<noteq> CHR '':'') key)) \<rparr>"

definition sampleLuck :: "string \<Rightarrow> rat" where
  "sampleLuck key =
     (if key = ''369895:-1220627'' then 5 / 100
      else if key = ''369895:-1220626'' then 3 / 100
      else 1 / 2)"

definition sampleDeps :: Deps where
  "sampleDeps = \<lparr> luck = sampleLuck, getCellAtKey = cellOfKey \<rparr>"

subsection \<open>Auxiliary notions for the proofs\<close>

definition digit_or_minus :: "char \<Rightarrow> bool" where
  "digit_or_minus c = (c = CHR ''-'' \<or> (48 \<le> (of_char c :: nat) \<and> (of_char c :: nat) \<le> 57))"


text \<open>The map of known cells agrees with the heap: every entry points to an object with that key.\<close>

definition wf_board :: "Board \<times> heap \<Rightarrow> bool" where
  "wf_board bh =
     list_all (\<lambda>entry. snd entry < length (snd bh) \<and> knownCells_key (snd bh ! snd entry) = fst entry)
              (knownCells (fst bh))"


text \<open>
  What the theorems ask of \<^verbatim>\<open>getCellAtKey\<close>: it gives back the cell whose key it is given.
\<close>

definition getCellAtKey_inverts :: "Deps \<Rightarrow> bool" where
  "getCellAtKey_inverts d = (\<forall>cell. getCellAtKey d (cellToString cell) = cell)"

text \<open>One round of the loop of \<^verbatim>\<open>populateMap\<close>.\<close>

definition refreshCell :: "Deps \<Rightarrow> string \<Rightarrow> Game \<Rightarrow> error + Game" where
  "refreshCell d cellKey s =
     restoreCacheIfNeeded (getCellAtKey d cellKey) cellKey
       (spawnCacheIfNeeded d (getCellAtKey d cellKey) cellKey s)"

text \<open>
  Every rendered cache mirrors the store: the cache object behind the rectangle of a key is
  the cache of the cell with that key, and its coins are the coins the store has for the key.
\<close>

definition coherent :: "Game \<Rightarrow> bool" where
  "coherent s =
     (\<forall>key cache. Map_get key (activeCacheRects s) = Some cache \<longrightarrow>
        cellToString (location cache) = key \<and> Map_get key (cacheStates s) = Some (coins cache))"

text \<open>All coins of a state: those of the wallet and those of every entry of the store.\<close>

definition storeCoins :: "(string \<times> Coin list) list \<Rightarrow> Coin multiset" where
  "storeCoins m = sum_list (map (\<lambda>entry. mset (snd entry)) m)"

definition allCoins :: "Game \<Rightarrow> Coin multiset" where
  "allCoins s = mset (playerWallet s) + storeCoins (cacheStates s)"

definition coinCount :: "Game \<Rightarrow> nat" where
  "coinCount s = length (playerWallet s) + sum_list (map (\<lambda>entry. length (snd entry)) (cacheStates s))"

fun is_transfer :: "event \<Rightarrow> bool" where
  "is_transfer (Collect key) = True"
| "is_transfer (Deposit key) = True"
| "is_transfer e = False"

text \<open>
  The names of the sample session: the player steps one tile up from the start; the two lucky
  cells \<open>cellA\<close> and \<open>cellB\<close> are then in view.
\<close>

definition cellA :: Cell where
  "cellA = \<lparr> cell_i = 369895, cell_j = - 1220627 \<rparr>"

definition cellB :: Cell where
  "cellB = \<lparr> cell_i = 369895, cell_j = - 1220626 \<rparr>"

definition keyA :: string where
  "keyA = ''369895:-1220627''"

definition keyB :: string where
  "keyB = ''369895:-1220626''"

definition coinsOf :: "Cell \<Rightarrow> int list \<Rightarrow> Coin list" where
  "coinsOf cell serials = map (\<lambda>n. \<lparr> spawnLocation = cell, serial = n \<rparr>) serials"

definition afterFirstMove :: "error + Game" where
  "afterFirstMove = run sampleDeps [MovePlayer TILE_DEGREES 0] (initialGame None)"

section \<open>Properties\<close>

subsection \<open>JavaScript containers\<close>

lemma Map_get_set: "Map_get k (Map_set k' v m) = (if k = k' then Some v else Map_get k m)"
  by (induction m) auto

lemma Map_has_eq: "Map_has k m = (Map_get k m \<noteq> None)"
  by (simp add: Map_has_def split: option.splits)



lemma Map_get_Some_mem: "Map_get k m = Some v \<Longrightarrow> (k, v) \<in> set m"
  by (induction m) (auto split: if_splits)

lemma Map_get_distinct: "distinct (map fst m) \<Longrightarrow> (k, v) \<in> set m \<Longrightarrow> Map_get k m = Some v"
  by (induction m) (auto simp: rev_image_eqI)

lemma Map_set_same: "Map_get k m = Some v \<Longrightarrow> Map_set k v m = m"
  by (induction m) (auto split: if_splits)

subsection \<open>Numbers as text: reading back what was written\<close>

lemma show_nat_small: "n < 10 \<Longrightarrow> show_nat n = [digit_char n]"
  by (subst show_nat.simps) simp

lemma show_nat_big: "\<not> n < 10 \<Longrightarrow> show_nat n = show_nat (n div 10) @ [digit_char (n mod 10)]"
  by (subst show_nat.simps) simp

lemma digit_val: "d < 10 \<Longrightarrow> of_char (digit_char d) - 48 = (d::nat)"
  by (simp add: digit_char_def)

lemma parse_nat_snoc: "parse_nat (str @ [c]) = 10 * parse_nat str + (of_char c - 48)"
  by (simp add: parse_nat_def)

lemma parse_nat_show_nat: "parse_nat (show_nat n) = n"
proof (induction n rule: show_nat.induct)
  case (1 n)
  show ?case
  proof (cases "n < 10")
    case True
    then show ?thesis by (simp add: show_nat_small parse_nat_def digit_val)
  next
    case False
    have "parse_nat (show_nat n) = 10 * parse_nat (show_nat (n div 10)) + (n mod 10)"
      using False by (simp add: show_nat_big parse_nat_snoc digit_val)
    with 1 False show ?thesis by simp
  qed
qed

lemma digit_char_range: "d < 10 \<Longrightarrow> 48 \<le> (of_char (digit_char d) :: nat) \<and> (of_char (digit_char d) :: nat) \<le> 57"
  by (simp add: digit_char_def)

lemma show_nat_digits: "c \<in> set (show_nat n) \<Longrightarrow> 48 \<le> (of_char c :: nat) \<and> (of_char c :: nat) \<le> 57"
proof (induction n rule: show_nat.induct)
  case (1 n)
  show ?case
  proof (cases "n < 10")
    case True
    with 1(2) show ?thesis using digit_char_range [of n] by (simp add: show_nat_small)
  next
    case False
    with 1 show ?thesis using digit_char_range [of "n mod 10"]
      by (auto simp: show_nat_big)
  qed
qed

lemma show_nat_nonempty: "show_nat n \<noteq> []"
  by (cases "n < 10") (simp_all add: show_nat_small show_nat_big)

lemma hd_show_nat: "hd (show_nat n) \<noteq> CHR ''-''"
proof -
  have "hd (show_nat n) \<in> set (show_nat n)" using show_nat_nonempty by simp
  from show_nat_digits [OF this] show ?thesis by auto
qed

lemma parse_int_show_int: "parse_int (show_int k) = k"
proof (cases "k < 0")
  case True
  then show ?thesis by (simp add: show_int_def parse_int_def parse_nat_show_nat)
next
  case False
  obtain c rest where sn: "show_nat (nat k) = c # rest"
    using show_nat_nonempty [of "nat k"] by (cases "show_nat (nat k)") auto
  have "c \<noteq> CHR ''-''" using hd_show_nat [of "nat k"] sn by simp
  moreover have "parse_nat (c # rest) = nat k" using parse_nat_show_nat [of "nat k"] sn by simp
  ultimately show ?thesis using False sn by (simp add: show_int_def parse_int_def)
qed

lemma show_int_chars: "c \<in> set (show_int k) \<Longrightarrow> digit_or_minus c"
  using show_nat_digits by (auto simp: show_int_def digit_or_minus_def split: if_splits)

lemma split_at_sep:
  assumes "\<And>c. c \<in> set a \<Longrightarrow> c \<noteq> sep"
  shows "takeWhile (\<lambda>c. c \<noteq> sep) (a @ sep # b) = a"
    and "drop 1 (dropWhile (\<lambda>c. c \<noteq> sep) (a @ sep # b)) = b"
  using assms by (simp_all add: takeWhile_append2 dropWhile_append2)

lemma cellOfKey_cellToString: "cellOfKey (cellToString c) = c"
proof -
  have no: "\<And>x. x \<in> set (show_int (cell_i c)) \<Longrightarrow> x \<noteq> CHR '':''"
    using show_int_chars by (fastforce simp: digit_or_minus_def)
  show ?thesis
    using split_at_sep [of "show_int (cell_i c)" "CHR '':''" "show_int (cell_j c)", OF no]
    by (simp add: cellOfKey_def cellToString_def parse_int_show_int)
qed

lemma cellToString_inj: "cellToString a = cellToString b \<Longrightarrow> a = b"
  by (metis cellOfKey_cellToString)

lemma knownCells_key_inj: "knownCells_key a = knownCells_key b \<Longrightarrow> a = b"
proof -
  assume eq: "knownCells_key a = knownCells_key b"
  have no: "\<And>c x. x \<in> set (show_int c) \<Longrightarrow> x \<noteq> CHR '',''"
    using show_int_chars by (fastforce simp: digit_or_minus_def)
  have a1: "takeWhile (\<lambda>c. c \<noteq> CHR '','') (knownCells_key a) = show_int (cell_i a)"
   and a2: "drop 1 (dropWhile (\<lambda>c. c \<noteq> CHR '','') (knownCells_key a)) = show_int (cell_j a)"
    using split_at_sep [of "show_int (cell_i a)" "CHR '',''" "show_int (cell_j a)", OF no]
    by (simp_all add: knownCells_key_def)
  have b1: "takeWhile (\<lambda>c. c \<noteq> CHR '','') (knownCells_key b) = show_int (cell_i b)"
   and b2: "drop 1 (dropWhile (\<lambda>c. c \<noteq> CHR '','') (knownCells_key b)) = show_int (cell_j b)"
    using split_at_sep [of "show_int (cell_i b)" "CHR '',''" "show_int (cell_j b)", OF no]
    by (simp_all add: knownCells_key_def)
  have "show_int (cell_i a) = show_int (cell_i b)" "show_int (cell_j a) = show_int (cell_j b)"
    using a1 a2 b1 b2 eq by simp_all
  then have "cell_i a = cell_i b" "cell_j a = cell_j b"
    by (metis parse_int_show_int)+
  then show ?thesis by simp
qed

lemma digit_char_simps:
  "digit_char 0 = CHR ''0''" "digit_char 1 = CHR ''1''" "digit_char 2 = CHR ''2''"
  "digit_char 3 = CHR ''3''" "digit_char 4 = CHR ''4''" "digit_char 5 = CHR ''5''"
  "digit_char 6 = CHR ''6''" "digit_char 7 = CHR ''7''" "digit_char 8 = CHR ''8''"
  "digit_char 9 = CHR ''9''" "digit_char (Suc 0) = CHR ''1''"
  unfolding digit_char_def by code_simp+

subsection \<open>The canonical cell\<close>

lemma getCanonicalCell_known:
  assumes "Map_get key (knownCells (fst bh)) = Some r"
  shows "Map_get key (knownCells (fst (snd (getCanonicalCell cell bh)))) = Some r"
  using assms
  by (auto simp: getCanonicalCell_def Let_def Map_get_set Map_has_eq split: option.splits)

lemma getCanonicalCell_result:
  "Map_get (knownCells_key cell) (knownCells (fst (snd (getCanonicalCell cell bh))))
     = Some (fst (getCanonicalCell cell bh))"
  by (auto simp: getCanonicalCell_def Let_def Map_get_set Map_has_eq split: option.splits)

lemma getCanonicalCell_again:
  assumes "Map_get (knownCells_key cell) (knownCells (fst bh)) = Some r"
  shows "getCanonicalCell cell bh = (r, bh)"
  using assms by (simp add: getCanonicalCell_def Let_def Map_has_eq)

lemma canonicalizeAll_known:
  "Map_get key (knownCells (fst bh)) = Some r \<Longrightarrow>
   Map_get key (knownCells (fst (snd (canonicalizeAll cells bh)))) = Some r"
proof (induction cells arbitrary: bh)
  case Nil
  then show ?case by simp
next
  case (Cons c cs)
  obtain r' bh' where step: "getCanonicalCell c bh = (r', bh')" by (cases "getCanonicalCell c bh")
  have "Map_get key (knownCells (fst bh')) = Some r"
    using getCanonicalCell_known [OF Cons.prems, of c] step by simp
  from Cons.IH [OF this] show ?case using step by (simp add: case_prod_unfold Let_def)
qed

text \<open>
  Claim C3 (cell canonicalization). Take any board and heap, any cell \<open>(i, j)\<close> and any
  calls of \<^verbatim>\<open>getCanonicalCell\<close> made between two calls for that cell (the public methods
  \<^verbatim>\<open>getCellForPoint\<close> and \<^verbatim>\<open>getCellsNearPoint\<close> reach the map only through such calls).
  The second call returns the address the first one returned and changes nothing. After the
  first call the map holds that address under the key \<^verbatim>\<open>"i,j"\<close>; the first call allocates
  (a new object with the fields of the argument, stored under the key) exactly when the key was
  absent, and otherwise leaves board and heap as they were.
\<close>

theorem getCanonicalCell_same_reference:
  "(let (r1, bh1) = getCanonicalCell cell bh;
        (rs, bh2) = canonicalizeAll others bh1;
        (r2, bh3) = getCanonicalCell cell bh2
    in r2 = r1 \<and> bh3 = bh2
       \<and> Map_get (knownCells_key cell) (knownCells (fst bh1)) = Some r1
       \<and> (if Map_has (knownCells_key cell) (knownCells (fst bh))
          then bh1 = bh
          else r1 = length (snd bh) \<and> snd bh1 = snd bh @ [cell]
               \<and> knownCells (fst bh1) = Map_set (knownCells_key cell) r1 (knownCells (fst bh))))"
proof -
  obtain r1 bh1 where c1: "getCanonicalCell cell bh = (r1, bh1)" by (cases "getCanonicalCell cell bh")
  obtain rs bh2 where c2: "canonicalizeAll others bh1 = (rs, bh2)" by (cases "canonicalizeAll others bh1")
  have k1: "Map_get (knownCells_key cell) (knownCells (fst bh1)) = Some r1"
    using getCanonicalCell_result [of cell bh] c1 by simp
  have k2: "Map_get (knownCells_key cell) (knownCells (fst bh2)) = Some r1"
    using canonicalizeAll_known [OF k1, of others] c2 by simp
  have c3: "getCanonicalCell cell bh2 = (r1, bh2)" by (rule getCanonicalCell_again [OF k2])
  have first: "if Map_has (knownCells_key cell) (knownCells (fst bh))
          then bh1 = bh
          else r1 = length (snd bh) \<and> snd bh1 = snd bh @ [cell]
               \<and> knownCells (fst bh1) = Map_set (knownCells_key cell) r1 (knownCells (fst bh))"
    using c1 by (auto simp: getCanonicalCell_def Let_def Map_has_eq split: option.splits)
  show ?thesis using c1 c2 c3 k1 first by simp
qed

theorem getCanonicalCell_same_reference_witness:
  "(let (r1, bh1) = getCanonicalCell \<lparr>cell_i = 3, cell_j = - 4\<rparr> (board, []);
        (rs, bh2) = canonicalizeAll [\<lparr>cell_i = 0, cell_j = 1\<rparr>, \<lparr>cell_i = 3, cell_j = - 4\<rparr>] bh1;
        (r2, bh3) = getCanonicalCell \<lparr>cell_i = 3, cell_j = - 4\<rparr> bh2
    in r2 = r1 \<and> bh3 = bh2 \<and> r1 = 0 \<and> rs = [1, 0] \<and> snd bh3 = [\<lparr>cell_i = 3, cell_j = - 4\<rparr>, \<lparr>cell_i = 0, cell_j = 1\<rparr>])"
  using getCanonicalCell_same_reference [of "\<lparr>cell_i = 3, cell_j = - 4\<rparr>" "(board, [])" "[\<lparr>cell_i = 0, cell_j = 1\<rparr>, \<lparr>cell_i = 3, cell_j = - 4\<rparr>]"]
  by (simp add: getCanonicalCell_def Let_def Map_has_eq board_def new_Board_def knownCells_key_def
      show_int_def show_nat_small digit_char_simps)

text \<open>
  On a board whose map is consistent with the heap, the canonical object has the fields of the
  argument: this is why the callers may be modelled by field values (the keys \<^verbatim>\<open>"i,j"\<close> of
  two different cells differ).
\<close>

lemma set_Map_set: "e \<in> set (Map_set k v m) \<Longrightarrow> e = (k, v) \<or> e \<in> set m"
  by (induction m) (auto split: if_splits)

lemma getCanonicalCell_fields:
  assumes "wf_board bh"
  shows "fst (getCanonicalCell cell bh) < length (snd (snd (getCanonicalCell cell bh)))
         \<and> snd (snd (getCanonicalCell cell bh)) ! fst (getCanonicalCell cell bh) = cell
         \<and> wf_board (snd (getCanonicalCell cell bh))"
proof (cases "Map_get (knownCells_key cell) (knownCells (fst bh))")
  case None
  have "list_all (\<lambda>entry. snd entry < length (snd bh @ [cell])
           \<and> knownCells_key ((snd bh @ [cell]) ! snd entry) = fst entry)
          (Map_set (knownCells_key cell) (length (snd bh)) (knownCells (fst bh)))"
    using assms unfolding wf_board_def list_all_iff
    by (auto simp: nth_append dest!: set_Map_set)
  then show ?thesis using None
    by (simp add: getCanonicalCell_def Let_def Map_has_eq wf_board_def)
next
  case (Some r)
  then have "(knownCells_key cell, r) \<in> set (knownCells (fst bh))" by (rule Map_get_Some_mem)
  with assms have "r < length (snd bh)" "knownCells_key (snd bh ! r) = knownCells_key cell"
    by (auto simp: wf_board_def list_all_iff)
  then show ?thesis using Some assms knownCells_key_inj
    by (auto simp: getCanonicalCell_again)
qed

subsection \<open>Spawning a cache\<close>

lemma createNewCache_loop_eq:
  "createNewCache_loop cell numCoins n c =
     c\<lparr> coins := coins c @ map (\<lambda>m. \<lparr> spawnLocation = cell, serial = serialNumber c + (m - n) \<rparr>)
                                  [n..numCoins - 1],
        serialNumber := serialNumber c + max 0 (numCoins - n) \<rparr>"
proof (induction cell numCoins n c rule: createNewCache_loop.induct)
  case (1 cell numCoins n c)
  show ?case
  proof (cases "n < numCoins")
    case True
    have up: "[n..numCoins - 1] = n # [n + 1..numCoins - 1]"
      using True by (simp add: upto_rec1)
    have "createNewCache_loop cell numCoins n c =
          createNewCache_loop cell numCoins (n + 1)
             (c\<lparr> coins := Array_push \<lparr> spawnLocation = cell, serial = serialNumber c \<rparr> (coins c),
                 serialNumber := serialNumber c + 1 \<rparr>)"
      using True by (subst createNewCache_loop.simps) simp
    also have "\<dots> = c\<lparr> coins := coins c @ map (\<lambda>m. \<lparr> spawnLocation = cell, serial = serialNumber c + (m - n) \<rparr>)
                                  [n..numCoins - 1],
        serialNumber := serialNumber c + max 0 (numCoins - n) \<rparr>"
      using True by (subst 1 [OF True]) (simp add: up Array_push_def algebra_simps)
    finally show ?thesis .
  next
    case False
    then show ?thesis by (subst createNewCache_loop.simps) simp
  qed
qed

lemma createNewCache_eq:
  "createNewCache cell numCoins =
     \<lparr> coins = map (\<lambda>m. \<lparr> spawnLocation = cell, serial = m \<rparr>) [0..numCoins - 1],
       serialNumber = max 0 numCoins, location = cell \<rparr>"
  by (simp add: createNewCache_def createNewCache_loop_eq)




text \<open>
  Claim C6 (collect and deposit). For the popup of a rendered cache: \<^verbatim>\<open>collect\<close> on a cache
  without coins changes nothing; otherwise it removes the last coin of the cache, appends it to
  the wallet, writes the remaining coins to the store under the key of the cache's cell, and
  saves. \<^verbatim>\<open>deposit\<close> with an empty wallet changes nothing; otherwise it removes the last coin
  of the wallet, appends it to the coins of the cache, writes them to the store, and saves.
  Both handlers end with a state, never with an exception.
\<close>


theorem collect_deposit_stack:
  assumes "Map_get key (activeCacheRects s) = Some cache"
  shows "(if coins cache = [] then collect key s = s
          else (let s' = collect key s; rest = butlast (coins cache) in
                playerWallet s' = playerWallet s @ [last (coins cache)]
                \<and> coins cache = rest @ [last (coins cache)]
                \<and> Map_get key (activeCacheRects s') = Some (cache\<lparr> coins := rest \<rparr>)
                \<and> Map_get (cellToString (location cache)) (cacheStates s') = Some rest
                \<and> localStorage s' = Some (JSONText (gameState_json s'))))
       \<and> (if playerWallet s = [] then deposit key s = s
          else (let s' = deposit key s; coin = last (playerWallet s) in
                playerWallet s = playerWallet s' @ [coin]
                \<and> Map_get key (activeCacheRects s') = Some (cache\<lparr> coins := coins cache @ [coin] \<rparr>)
                \<and> Map_get (cellToString (location cache)) (cacheStates s') = Some (coins cache @ [coin])
                \<and> localStorage s' = Some (JSONText (gameState_json s'))))
       \<and> handle d (Collect key) s = Inr (collect key s)
       \<and> handle d (Deposit key) s = Inr (deposit key s)"
  using assms
  by (simp add: collect_def deposit_def Let_def saveGameState_def Array_push_def Map_get_set
      gameState_json_def)

theorem collect_deposit_stack_witness:
  "(let cell = \<lparr> cell_i = 1, cell_j = 2 \<rparr>;
        c0 = \<lparr> spawnLocation = cell, serial = 0 \<rparr>;
        c1 = \<lparr> spawnLocation = cell, serial = 1 \<rparr>;
        c9 = \<lparr> spawnLocation = \<lparr> cell_i = 7, cell_j = 7 \<rparr>, serial = 9 \<rparr>;
        s = (initialGame None)
              \<lparr> playerWallet := [c9], cacheStates := [(''1:2'', [c0, c1])],
                activeCacheRects := [(''1:2'', \<lparr> coins = [c0, c1], serialNumber = 2, location = cell \<rparr>)] \<rparr>
    in playerWallet (collect ''1:2'' s) = [c9, c1]
       \<and> Map_get ''1:2'' (cacheStates (collect ''1:2'' s)) = Some [c0]
       \<and> playerWallet (deposit ''1:2'' s) = []
       \<and> Map_get ''1:2'' (cacheStates (deposit ''1:2'' s)) = Some [c0, c1, c9])"
proof -
  let ?cell = "\<lparr> cell_i = 1, cell_j = 2 \<rparr>"
  let ?c0 = "\<lparr> spawnLocation = ?cell, serial = 0 \<rparr>"
  let ?c1 = "\<lparr> spawnLocation = ?cell, serial = 1 \<rparr>"
  let ?c9 = "\<lparr> spawnLocation = \<lparr> cell_i = 7, cell_j = 7 \<rparr>, serial = 9 \<rparr>"
  let ?cache = "\<lparr> coins = [?c0, ?c1], serialNumber = 2, location = ?cell \<rparr>"
  let ?s = "(initialGame None)
              \<lparr> playerWallet := [?c9], cacheStates := [(''1:2'', [?c0, ?c1])],
                activeCacheRects := [(''1:2'', ?cache)] \<rparr>"
  have a: "Map_get ''1:2'' (activeCacheRects ?s) = Some ?cache" by simp
  have k: "cellToString ?cell = ''1:2''"
    by (simp add: cellToString_def show_int_def show_nat_small digit_char_simps)
  show ?thesis
    using collect_deposit_stack [OF a] k by (simp add: Let_def)
qed

subsection \<open>The refresh of the map\<close>

lemma populateMap_loop_Cons:
  "populateMap_loop d (k # ks) s =
     (case refreshCell d k s of Inl e \<Rightarrow> Inl e | Inr s' \<Rightarrow> populateMap_loop d ks s')"
  by (simp add: refreshCell_def Let_def)

declare populateMap_loop.simps(2) [simp del]

text \<open>What one round leaves alone.\<close>

lemma refreshCell_frame:
  assumes "refreshCell d k s = Inr s'"
  shows "playerWallet s' = playerWallet s \<and> playerMarker s' = playerMarker s
         \<and> movementHistory s' = movementHistory s \<and> localStorage s' = localStorage s"
  using assms
  by (auto simp: refreshCell_def restoreCacheIfNeeded_def restoreCache_def spawnCacheIfNeeded_def
      spawnCache_def Let_def split: if_splits option.splits)

lemma populateMap_loop_frame:
  "populateMap_loop d ks s = Inr s' \<Longrightarrow>
     playerWallet s' = playerWallet s \<and> playerMarker s' = playerMarker s
     \<and> movementHistory s' = movementHistory s \<and> localStorage s' = localStorage s"
proof (induction ks arbitrary: s)
  case Nil
  then show ?case by simp
next
  case (Cons k ks)
  from Cons.prems obtain s1 where s1: "refreshCell d k s = Inr s1" and rest: "populateMap_loop d ks s1 = Inr s'"
    by (auto simp: populateMap_loop_Cons split: sum.splits)
  from Cons.IH [OF rest] refreshCell_frame [OF s1] show ?case by simp
qed

lemma removeInactiveCaches_fold:
  "fold (\<lambda>entry rects. if fst entry \<notin> set vis then Map_delete (fst entry) rects else rects) xs acc
     = filter (\<lambda>entry. fst entry \<in> set vis \<or> fst entry \<notin> fst ` set xs) acc"
proof (induction xs arbitrary: acc)
  case Nil
  then show ?case by simp
next
  case (Cons x xs)
  show ?case
  proof (cases "fst x \<in> set vis")
    case True
    have "filter (\<lambda>entry. fst entry \<in> set vis \<or> fst entry \<notin> fst ` set xs) acc
          = filter (\<lambda>entry. fst entry \<in> set vis \<or> fst entry \<notin> fst ` set (x # xs)) acc"
      using True by (intro filter_cong) auto
    with True show ?thesis by (simp add: Cons.IH)
  next
    case False
    have "filter (\<lambda>entry. fst entry \<in> set vis \<or> fst entry \<notin> fst ` set xs)
                 (filter (\<lambda>entry. fst entry \<noteq> fst x) acc)
          = filter (\<lambda>entry. fst entry \<in> set vis \<or> fst entry \<notin> fst ` set (x # xs)) acc"
      using False by (auto intro: filter_cong)
    with False show ?thesis by (simp add: Cons.IH Map_delete_def)
  qed
qed

lemma removeInactiveCaches_eq:
  "removeInactiveCaches vis s =
     s\<lparr> activeCacheRects := filter (\<lambda>entry. fst entry \<in> set vis) (activeCacheRects s) \<rparr>"
proof -
  have "filter (\<lambda>entry. fst entry \<in> set vis \<or> fst entry \<notin> fst ` set (activeCacheRects s)) (activeCacheRects s)
        = filter (\<lambda>entry. fst entry \<in> set vis) (activeCacheRects s)"
    by (rule filter_cong) auto
  then show ?thesis by (simp add: removeInactiveCaches_def Set_has_def removeInactiveCaches_fold)
qed

lemma populateMap_frame:
  assumes "populateMap d s = Inr s'"
  shows "playerWallet s' = playerWallet s \<and> playerMarker s' = playerMarker s
     \<and> movementHistory s' = movementHistory s \<and> localStorage s' = localStorage s"
proof -
  from assms obtain s1 where l: "populateMap_loop d (getVisibleCells (playerMarker s)) s = Inr s1"
    and e: "s' = removeInactiveCaches (getVisibleCells (playerMarker s)) s1"
    by (auto simp: populateMap_def Let_def split: sum.splits)
  from populateMap_loop_frame [OF l] e show ?thesis by (simp add: removeInactiveCaches_eq)
qed

text \<open>One round, for a key that is the key of the cell \<^verbatim>\<open>getCellAtKey\<close> makes of it.\<close>

lemma refreshCell_eq:
  assumes "cellToString (getCellAtKey d k) = k"
  shows "refreshCell d k s =
     Inr (if \<not> Map_has k (cacheStates s)
          then (if luck d k < CACHE_SPAWN_PROBABILITY then spawnCache d (getCellAtKey d k) s else s)
          else (if \<not> Map_has k (activeCacheRects s)
                then s\<lparr> activeCacheRects :=
                        Map_set k \<lparr> coins = the (Map_get k (cacheStates s)),
                                    serialNumber = int (length (the (Map_get k (cacheStates s)))),
                                    location = getCellAtKey d k \<rparr> (activeCacheRects s) \<rparr>
                else s))"
  using assms
  by (auto simp: refreshCell_def restoreCacheIfNeeded_def restoreCache_def spawnCacheIfNeeded_def
      spawnCache_def cellLuck_def Let_def Map_has_eq Map_get_set split: option.splits)

text \<open>The store and the rectangles after one round, key by key.\<close>

lemma refreshCell_lookup:
  assumes "cellToString (getCellAtKey d k) = k"
  obtains s' where "refreshCell d k s = Inr s'"
    and "\<And>x. Map_get x (cacheStates s') =
           (if x = k \<and> \<not> Map_has k (cacheStates s) \<and> luck d k < CACHE_SPAWN_PROBABILITY
            then Some (coins (createNewCache (getCellAtKey d k) \<lfloor>luck d k * 100\<rfloor>))
            else Map_get x (cacheStates s))"
    and "\<And>x. Map_get x (activeCacheRects s') =
           (if x = k then
              (if \<not> Map_has k (cacheStates s)
               then (if luck d k < CACHE_SPAWN_PROBABILITY
                     then Some (createNewCache (getCellAtKey d k) \<lfloor>luck d k * 100\<rfloor>)
                     else Map_get k (activeCacheRects s))
               else (if \<not> Map_has k (activeCacheRects s)
                     then Some \<lparr> coins = the (Map_get k (cacheStates s)),
                                 serialNumber = int (length (the (Map_get k (cacheStates s)))),
                                 location = getCellAtKey d k \<rparr>
                     else Map_get k (activeCacheRects s)))
            else Map_get x (activeCacheRects s))"
proof -
  let ?s' = "(if \<not> Map_has k (cacheStates s)
          then (if luck d k < CACHE_SPAWN_PROBABILITY then spawnCache d (getCellAtKey d k) s else s)
          else (if \<not> Map_has k (activeCacheRects s)
                then s\<lparr> activeCacheRects :=
                        Map_set k \<lparr> coins = the (Map_get k (cacheStates s)),
                                    serialNumber = int (length (the (Map_get k (cacheStates s)))),
                                    location = getCellAtKey d k \<rparr> (activeCacheRects s) \<rparr>
                else s))"
  have r: "refreshCell d k s = Inr ?s'" by (rule refreshCell_eq [OF assms])
  have st: "\<And>x. Map_get x (cacheStates ?s') =
           (if x = k \<and> \<not> Map_has k (cacheStates s) \<and> luck d k < CACHE_SPAWN_PROBABILITY
            then Some (coins (createNewCache (getCellAtKey d k) \<lfloor>luck d k * 100\<rfloor>))
            else Map_get x (cacheStates s))"
    using assms by (simp add: spawnCache_def cellLuck_def Let_def Map_get_set)
  have ac: "\<And>x. Map_get x (activeCacheRects ?s') =
           (if x = k then
              (if \<not> Map_has k (cacheStates s)
               then (if luck d k < CACHE_SPAWN_PROBABILITY
                     then Some (createNewCache (getCellAtKey d k) \<lfloor>luck d k * 100\<rfloor>)
                     else Map_get k (activeCacheRects s))
               else (if \<not> Map_has k (activeCacheRects s)
                     then Some \<lparr> coins = the (Map_get k (cacheStates s)),
                                 serialNumber = int (length (the (Map_get k (cacheStates s)))),
                                 location = getCellAtKey d k \<rparr>
                     else Map_get k (activeCacheRects s)))
            else Map_get x (activeCacheRects s))"
    using assms by (simp add: spawnCache_def cellLuck_def Let_def Map_get_set)
  from that [OF r st ac] show thesis .
qed

text \<open>The same for the whole loop.\<close>

lemma populateMap_loop_lookup:
  assumes "\<And>k. k \<in> set ks \<Longrightarrow> cellToString (getCellAtKey d k) = k"
  shows "\<exists>s'. populateMap_loop d ks s = Inr s'
     \<and> (\<forall>x. Map_get x (cacheStates s') =
           (if Map_has x (cacheStates s) then Map_get x (cacheStates s)
            else if x \<in> set ks \<and> luck d x < CACHE_SPAWN_PROBABILITY
            then Some (coins (createNewCache (getCellAtKey d x) \<lfloor>luck d x * 100\<rfloor>))
            else None))
     \<and> (\<forall>x. Map_get x (activeCacheRects s') =
           (if x \<in> set ks then
              (if \<not> Map_has x (cacheStates s)
               then (if luck d x < CACHE_SPAWN_PROBABILITY
                     then Some (createNewCache (getCellAtKey d x) \<lfloor>luck d x * 100\<rfloor>)
                     else Map_get x (activeCacheRects s))
               else (if \<not> Map_has x (activeCacheRects s)
                     then Some \<lparr> coins = the (Map_get x (cacheStates s)),
                                 serialNumber = int (length (the (Map_get x (cacheStates s)))),
                                 location = getCellAtKey d x \<rparr>
                     else Map_get x (activeCacheRects s)))
            else Map_get x (activeCacheRects s)))"
  using assms
proof (induction ks arbitrary: s)
  case Nil
  then show ?case by (simp add: Map_has_eq)
next
  case (Cons k ks)
  have rk: "cellToString (getCellAtKey d k) = k" using Cons.prems by simp
  obtain s1 where s1: "refreshCell d k s = Inr s1"
    and st1: "\<And>x. Map_get x (cacheStates s1) =
           (if x = k \<and> \<not> Map_has k (cacheStates s) \<and> luck d k < CACHE_SPAWN_PROBABILITY
            then Some (coins (createNewCache (getCellAtKey d k) \<lfloor>luck d k * 100\<rfloor>))
            else Map_get x (cacheStates s))"
    and ac1: "\<And>x. Map_get x (activeCacheRects s1) =
           (if x = k then
              (if \<not> Map_has k (cacheStates s)
               then (if luck d k < CACHE_SPAWN_PROBABILITY
                     then Some (createNewCache (getCellAtKey d k) \<lfloor>luck d k * 100\<rfloor>)
                     else Map_get k (activeCacheRects s))
               else (if \<not> Map_has k (activeCacheRects s)
                     then Some \<lparr> coins = the (Map_get k (cacheStates s)),
                                 serialNumber = int (length (the (Map_get k (cacheStates s)))),
                                 location = getCellAtKey d k \<rparr>
                     else Map_get k (activeCacheRects s)))
            else Map_get x (activeCacheRects s))"
    by (rule refreshCell_lookup [OF rk, of s]) blast
  have "\<And>k'. k' \<in> set ks \<Longrightarrow> cellToString (getCellAtKey d k') = k'" using Cons.prems by simp
  from Cons.IH [OF this, of s1] obtain s' where
    l: "populateMap_loop d ks s1 = Inr s'"
    and st: "\<And>x. Map_get x (cacheStates s') =
           (if Map_has x (cacheStates s1) then Map_get x (cacheStates s1)
            else if x \<in> set ks \<and> luck d x < CACHE_SPAWN_PROBABILITY
            then Some (coins (createNewCache (getCellAtKey d x) \<lfloor>luck d x * 100\<rfloor>))
            else None)"
    and ac: "\<And>x. Map_get x (activeCacheRects s') =
           (if x \<in> set ks then
              (if \<not> Map_has x (cacheStates s1)
               then (if luck d x < CACHE_SPAWN_PROBABILITY
                     then Some (createNewCache (getCellAtKey d x) \<lfloor>luck d x * 100\<rfloor>)
                     else Map_get x (activeCacheRects s1))
               else (if \<not> Map_has x (activeCacheRects s1)
                     then Some \<lparr> coins = the (Map_get x (cacheStates s1)),
                                 serialNumber = int (length (the (Map_get x (cacheStates s1)))),
                                 location = getCellAtKey d x \<rparr>
                     else Map_get x (activeCacheRects s1)))
            else Map_get x (activeCacheRects s1))"
    by blast
  have l': "populateMap_loop d (k # ks) s = Inr s'" using s1 l by (simp add: populateMap_loop_Cons)
  have g1: "Map_get x (cacheStates s') =
           (if Map_has x (cacheStates s) then Map_get x (cacheStates s)
            else if x \<in> set (k # ks) \<and> luck d x < CACHE_SPAWN_PROBABILITY
            then Some (coins (createNewCache (getCellAtKey d x) \<lfloor>luck d x * 100\<rfloor>))
            else None)" for x
  proof (cases "Map_has x (cacheStates s)")
    case True
    then have "Map_get x (cacheStates s1) = Map_get x (cacheStates s)" by (auto simp: st1)
    with True show ?thesis by (simp add: st Map_has_eq)
  next
    case False
    show ?thesis
    proof (cases "x = k \<and> luck d k < CACHE_SPAWN_PROBABILITY")
      case True
      with False show ?thesis by (simp add: st st1 Map_has_eq)
    next
      case no: False
      with False have "Map_get x (cacheStates s1) = None" by (auto simp: st1 Map_has_eq)
      with False no show ?thesis by (auto simp: st Map_has_eq)
    qed
  qed
  have g2: "Map_get x (activeCacheRects s') =
           (if x \<in> set (k # ks) then
              (if \<not> Map_has x (cacheStates s)
               then (if luck d x < CACHE_SPAWN_PROBABILITY
                     then Some (createNewCache (getCellAtKey d x) \<lfloor>luck d x * 100\<rfloor>)
                     else Map_get x (activeCacheRects s))
               else (if \<not> Map_has x (activeCacheRects s)
                     then Some \<lparr> coins = the (Map_get x (cacheStates s)),
                                 serialNumber = int (length (the (Map_get x (cacheStates s)))),
                                 location = getCellAtKey d x \<rparr>
                     else Map_get x (activeCacheRects s)))
            else Map_get x (activeCacheRects s))" for x
  proof (cases "x = k")
    case False
    then have a: "Map_get x (activeCacheRects s1) = Map_get x (activeCacheRects s)"
      and b: "Map_get x (cacheStates s1) = Map_get x (cacheStates s)"
      by (simp_all add: ac1 st1)
    show ?thesis using False unfolding ac [of x] Map_has_eq a b by simp
  next
    case True
    show ?thesis
    proof (cases "Map_has k (cacheStates s)")
      case has: True
      then have b: "Map_get k (cacheStates s1) = Map_get k (cacheStates s)" by (auto simp: st1)
      have a: "Map_get k (activeCacheRects s1) \<noteq> None"
        using has by (simp add: ac1 Map_has_eq)
      have a': "Map_get k (activeCacheRects s1) =
            (if \<not> Map_has k (activeCacheRects s)
                     then Some \<lparr> coins = the (Map_get k (cacheStates s)),
                                 serialNumber = int (length (the (Map_get k (cacheStates s)))),
                                 location = getCellAtKey d k \<rparr>
                     else Map_get k (activeCacheRects s))"
        using has by (simp add: ac1)
      have "Map_get k (activeCacheRects s') = Map_get k (activeCacheRects s1)"
        using a b has unfolding ac [of k] Map_has_eq by simp
      then show ?thesis using True has a' by simp
    next
      case nohas: False
      show ?thesis
      proof (cases "luck d k < CACHE_SPAWN_PROBABILITY")
        case lucky: True
        have b: "Map_get k (cacheStates s1) \<noteq> None" using nohas lucky by (simp add: st1)
        have a: "Map_get k (activeCacheRects s1) = Some (createNewCache (getCellAtKey d k) \<lfloor>luck d k * 100\<rfloor>)"
          using nohas lucky by (simp add: ac1)
        have "Map_get k (activeCacheRects s') = Map_get k (activeCacheRects s1)"
          using a b unfolding ac [of k] Map_has_eq by simp
        then show ?thesis using True nohas lucky a by simp
      next
        case unlucky: False
        have b: "Map_get k (cacheStates s1) = None" using nohas unlucky by (simp add: st1 Map_has_eq)
        have a: "Map_get k (activeCacheRects s1) = Map_get k (activeCacheRects s)"
          using nohas unlucky by (simp add: ac1)
        have "Map_get k (activeCacheRects s') = Map_get k (activeCacheRects s)"
          using a b unlucky unfolding ac [of k] Map_has_eq by simp
        then show ?thesis using True nohas unlucky by simp
      qed
    qed
  qed
  from l' g1 g2 show ?case by blast
qed

lemma Map_get_filter_mem:
  "Map_get x (filter (\<lambda>entry. fst entry \<in> A) m) = (if x \<in> A then Map_get x m else None)"
  by (induction m) auto

lemma set_fold_Set_add: "set (fold (\<lambda>x acc. Set_add (f x) acc) xs acc0) = f ` set xs \<union> set acc0"
  by (induction xs arbitrary: acc0) (auto simp: Set_add_def Set_has_def)

lemma set_getVisibleCells: "set (getVisibleCells p) = cellToString ` set (getCellsNearPoint board p)"
  by (simp add: getVisibleCells_def set_fold_Set_add)

lemma visible_keys_round_trip:
  assumes "getCellAtKey_inverts d" and "k \<in> set (getVisibleCells p)"
  shows "cellToString (getCellAtKey d k) = k"
  using assms by (auto simp: set_getVisibleCells getCellAtKey_inverts_def)

text \<open>
  \<^verbatim>\<open>populateMap\<close>, key by key: it does not throw; an entry of the store stays as it is; a
  key without entry gets one exactly when it is visible and lucky; a rectangle exists afterwards
  exactly for the visible keys that have an entry or had a rectangle.
\<close>

lemma populateMap_lookup:
  assumes "getCellAtKey_inverts d"
  obtains s' where "populateMap d s = Inr s'"
    and "playerWallet s' = playerWallet s" and "playerMarker s' = playerMarker s"
    and "movementHistory s' = movementHistory s" and "localStorage s' = localStorage s"
    and "\<And>x. Map_get x (cacheStates s') =
           (if Map_has x (cacheStates s) then Map_get x (cacheStates s)
            else if x \<in> set (getVisibleCells (playerMarker s)) \<and> luck d x < CACHE_SPAWN_PROBABILITY
            then Some (coins (createNewCache (getCellAtKey d x) \<lfloor>luck d x * 100\<rfloor>))
            else None)"
    and "\<And>x. Map_get x (activeCacheRects s') =
           (if x \<in> set (getVisibleCells (playerMarker s)) then
              (if \<not> Map_has x (cacheStates s)
               then (if luck d x < CACHE_SPAWN_PROBABILITY
                     then Some (createNewCache (getCellAtKey d x) \<lfloor>luck d x * 100\<rfloor>)
                     else Map_get x (activeCacheRects s))
               else (if \<not> Map_has x (activeCacheRects s)
                     then Some \<lparr> coins = the (Map_get x (cacheStates s)),
                                 serialNumber = int (length (the (Map_get x (cacheStates s)))),
                                 location = getCellAtKey d x \<rparr>
                     else Map_get x (activeCacheRects s)))
            else None)"
proof -
  let ?vis = "getVisibleCells (playerMarker s)"
  have rt: "\<And>k. k \<in> set ?vis \<Longrightarrow> cellToString (getCellAtKey d k) = k"
    using visible_keys_round_trip [OF assms] by blast
  from populateMap_loop_lookup [of ?vis d s, OF rt] obtain s1 where
    l: "populateMap_loop d ?vis s = Inr s1"
    and st: "\<And>x. Map_get x (cacheStates s1) =
           (if Map_has x (cacheStates s) then Map_get x (cacheStates s)
            else if x \<in> set ?vis \<and> luck d x < CACHE_SPAWN_PROBABILITY
            then Some (coins (createNewCache (getCellAtKey d x) \<lfloor>luck d x * 100\<rfloor>))
            else None)"
    and ac: "\<And>x. Map_get x (activeCacheRects s1) =
           (if x \<in> set ?vis then
              (if \<not> Map_has x (cacheStates s)
               then (if luck d x < CACHE_SPAWN_PROBABILITY
                     then Some (createNewCache (getCellAtKey d x) \<lfloor>luck d x * 100\<rfloor>)
                     else Map_get x (activeCacheRects s))
               else (if \<not> Map_has x (activeCacheRects s)
                     then Some \<lparr> coins = the (Map_get x (cacheStates s)),
                                 serialNumber = int (length (the (Map_get x (cacheStates s)))),
                                 location = getCellAtKey d x \<rparr>
                     else Map_get x (activeCacheRects s)))
            else Map_get x (activeCacheRects s))"
    by blast
  let ?s' = "removeInactiveCaches ?vis s1"
  have p: "populateMap d s = Inr ?s'" using l by (simp add: populateMap_def Let_def)
  have fr: "playerWallet ?s' = playerWallet s" "playerMarker ?s' = playerMarker s"
    "movementHistory ?s' = movementHistory s" "localStorage ?s' = localStorage s"
    using populateMap_frame [OF p] by simp_all
  have st': "\<And>x. Map_get x (cacheStates ?s') = Map_get x (cacheStates s1)"
    by (simp add: removeInactiveCaches_eq)
  have ac': "\<And>x. Map_get x (activeCacheRects ?s') =
              (if x \<in> set ?vis then Map_get x (activeCacheRects s1) else None)"
    by (simp add: removeInactiveCaches_eq Map_get_filter_mem)
  show thesis
    by (rule that [OF p fr]) (simp_all only: st' st ac' ac if_True if_False split: if_splits, simp_all)
qed

subsection \<open>Rendered caches mirror the store\<close>

lemma coherent_refreshCell:
  assumes "coherent s" and "refreshCell d k s = Inr s'"
  shows "coherent s'"
proof -
  let ?cell = "getCellAtKey d k"
  let ?m = "spawnCacheIfNeeded d ?cell k s"
  have m: "coherent ?m"
    using assms(1)
    by (auto simp: coherent_def spawnCacheIfNeeded_def spawnCache_def Let_def Map_get_set
        createNewCache_eq)
  from assms(2) have r: "restoreCacheIfNeeded ?cell k ?m = Inr s'" by (simp add: refreshCell_def)
  show ?thesis
  proof (cases "Map_has k (cacheStates ?m) \<and> \<not> Map_has k (activeCacheRects ?m)")
    case False
    with r have "s' = ?m" by (auto simp: restoreCacheIfNeeded_def)
    with m show ?thesis by simp
  next
    case True
    with r have rc: "restoreCache ?cell ?m = Inr s'" by (auto simp: restoreCacheIfNeeded_def)
    then obtain cs where cs: "Map_get (cellToString ?cell) (cacheStates ?m) = Some cs"
      and s': "s' = ?m\<lparr> activeCacheRects := Map_set (cellToString ?cell)
                     \<lparr> coins = cs, serialNumber = int (length cs), location = ?cell \<rparr>
                     (activeCacheRects ?m) \<rparr>"
      by (auto simp: restoreCache_def split: option.splits)
    show ?thesis using m cs unfolding s' coherent_def by (auto simp: Map_get_set)
  qed
qed

lemma coherent_populateMap_loop:
  "coherent s \<Longrightarrow> populateMap_loop d ks s = Inr s' \<Longrightarrow> coherent s'"
proof (induction ks arbitrary: s)
  case Nil
  then show ?case by simp
next
  case (Cons k ks)
  from Cons.prems(2) obtain s1 where s1: "refreshCell d k s = Inr s1"
    and rest: "populateMap_loop d ks s1 = Inr s'"
    by (auto simp: populateMap_loop_Cons split: sum.splits)
  from Cons.IH [OF coherent_refreshCell [OF Cons.prems(1) s1] rest] show ?case .
qed

lemma coherent_populateMap:
  assumes "coherent s" and "populateMap d s = Inr s'"
  shows "coherent s'"
proof -
  from assms(2) obtain s1 where l: "populateMap_loop d (getVisibleCells (playerMarker s)) s = Inr s1"
    and e: "s' = removeInactiveCaches (getVisibleCells (playerMarker s)) s1"
    by (auto simp: populateMap_def Let_def split: sum.splits)
  have "coherent s1" by (rule coherent_populateMap_loop [OF assms(1) l])
  then show ?thesis unfolding e removeInactiveCaches_eq coherent_def
    by (auto simp: Map_get_filter_mem split: if_splits)
qed

lemma coherent_collect: "coherent s \<Longrightarrow> coherent (collect key s)"
  by (auto simp: coherent_def collect_def saveGameState_def Let_def Map_get_set split: option.splits)

lemma coherent_deposit: "coherent s \<Longrightarrow> coherent (deposit key s)"
  by (auto simp: coherent_def deposit_def saveGameState_def Let_def Map_get_set split: option.splits)

lemma coherent_no_rects: "activeCacheRects s = [] \<Longrightarrow> coherent s"
  by (simp add: coherent_def)

lemma coherent_cong:
  "coherent s \<Longrightarrow> activeCacheRects t = activeCacheRects s \<Longrightarrow> cacheStates t = cacheStates s
   \<Longrightarrow> coherent t"
  by (simp add: coherent_def)

lemma coherent_handle:
  assumes "coherent s" and "handle d e s = Inr s'"
  shows "coherent s'"
proof (cases e)
  case (MovePlayer a b)
  let ?p = "\<lparr> lat = lat (playerMarker s) + a, lng = lng (playerMarker s) + b \<rparr>"
  let ?t = "s\<lparr> playerMarker := ?p, movementHistory := Array_push ?p (movementHistory s) \<rparr>"
  have "coherent ?t" by (rule coherent_cong [OF assms(1)]) simp_all
  moreover have "populateMap d ?t = Inr s'" using assms(2) MovePlayer by (simp add: movePlayer_def Let_def)
  ultimately show ?thesis by (rule coherent_populateMap)
next
  case (WatchPosition a b)
  let ?p = "\<lparr> lat = a, lng = b \<rparr>"
  let ?t = "s\<lparr> playerMarker := ?p, movementHistory := Array_push ?p (movementHistory s) \<rparr>"
  have "coherent ?t" by (rule coherent_cong [OF assms(1)]) simp_all
  moreover have "populateMap d ?t = Inr s'"
    using assms(2) WatchPosition by (simp add: watchPosition_success_def Let_def)
  ultimately show ?thesis by (rule coherent_populateMap)
next
  case (Collect k)
  with assms show ?thesis by (auto simp: coherent_collect)
next
  case (Deposit k)
  with assms show ?thesis by (auto simp: coherent_deposit)
next
  case (Reset c)
  show ?thesis
  proof (cases "map_option toLowerCase c = Some ''yes''")
    case False
    have "resetGame d c s = Inr s" unfolding resetGame_def using False by (rule if_not_P)
    with assms Reset show ?thesis by simp
  next
    case True
    let ?t = "saveGameState
                      (s\<lparr> playerWallet := [],
                          cacheStates := fold (\<lambda>entry m. Map_set (fst entry) (snd entry) m)
                                              (cacheStates s) (cacheStates s),
                          activeCacheRects := [],
                          movementHistory := take 1 (movementHistory s),
                          playerMarker := OAKES_CLASSROOM \<rparr>)"
    have "resetGame d c s = (if movementHistory s = [] then Inl IllTyped else populateMap d ?t)"
      unfolding resetGame_def using True by (rule if_P)
    with assms(2) Reset have "populateMap d ?t = Inr s'" by (simp split: if_splits)
    moreover have "activeCacheRects ?t = []" by (simp add: saveGameState_def)
    ultimately show ?thesis using coherent_populateMap coherent_no_rects by blast
  qed
qed

lemma coherent_run: "coherent s \<Longrightarrow> run d es s = Inr s' \<Longrightarrow> coherent s'"
proof (induction es arbitrary: s)
  case Nil
  then show ?case by simp
next
  case (Cons e es)
  from Cons.prems(2) obtain s1 where s1: "handle d e s = Inr s1" and rest: "run d es s1 = Inr s'"
    by (auto split: sum.splits)
  from Cons.IH [OF coherent_handle [OF Cons.prems(1) s1] rest] show ?case .
qed

lemma coherent_loadGameState:
  assumes "loadGameState d (initialGame item) = Inr s"
  shows "coherent s"
proof (cases "\<exists>g. item = Some (JSONText g)")
  case False
  then have "s = initialGame item" using assms
    by (cases item; cases "the item") (auto simp: loadGameState_def initialGame_def)
  then show ?thesis by (simp add: coherent_no_rects initialGame_def)
next
  case True
  then obtain g where g: "item = Some (JSONText g)" by blast
  from assms obtain t where t: "populateMap d t = Inr s" and a: "activeCacheRects t = []"
    unfolding loadGameState_def g
    by (auto simp: initialGame_def Let_def split: if_splits option.splits)
  from coherent_populateMap [OF coherent_no_rects [OF a] t] show ?thesis .
qed

lemma reachable_coherent: "reachable d s \<Longrightarrow> coherent s"
  unfolding reachable_def using coherent_loadGameState coherent_run by blast

subsection \<open>Collect and deposit move coins, they neither make nor lose any\<close>

lemma storeCoins_Map_set:
  "Map_get k m = Some old \<Longrightarrow> storeCoins (Map_set k v m) + mset old = storeCoins m + mset v"
  by (induction m) (auto simp: storeCoins_def split: if_splits)

lemma coinCount_allCoins: "coinCount s = size (allCoins s)"
proof -
  have "sum_list (map (\<lambda>entry. length (snd entry)) m) = size (storeCoins m)" for m :: "(string \<times> Coin list) list"
    by (induction m) (simp_all add: storeCoins_def)
  then show ?thesis by (simp add: coinCount_def allCoins_def)
qed

lemma allCoins_collect:
  assumes "coherent s"
  shows "allCoins (collect key s) = allCoins s"
proof (cases "Map_get key (activeCacheRects s)")
  case None
  then show ?thesis by (simp add: collect_def)
next
  case (Some cache)
  show ?thesis
  proof (cases "coins cache = []")
    case True
    with Some show ?thesis by (simp add: collect_def)
  next
    case False
    from assms Some have k: "cellToString (location cache) = key"
      and st: "Map_get key (cacheStates s) = Some (coins cache)"
      by (auto simp: coherent_def)
    have sp: "coins cache = butlast (coins cache) @ [last (coins cache)]" using False by simp
    have "storeCoins (Map_set key (butlast (coins cache)) (cacheStates s)) + mset (coins cache)
            = storeCoins (cacheStates s) + mset (butlast (coins cache))"
      by (rule storeCoins_Map_set [OF st])
    then have "storeCoins (Map_set key (butlast (coins cache)) (cacheStates s))
                 + (mset (butlast (coins cache)) + {#last (coins cache)#})
            = storeCoins (cacheStates s) + mset (butlast (coins cache))"
      by (subst (asm) sp) simp
    then have "storeCoins (Map_set key (butlast (coins cache)) (cacheStates s)) + {#last (coins cache)#}
            = storeCoins (cacheStates s)"
      by (simp add: ac_simps)
    then show ?thesis using Some False k
      by (simp add: collect_def allCoins_def saveGameState_def Let_def Array_push_def ac_simps)
  qed
qed

lemma allCoins_deposit:
  assumes "coherent s"
  shows "allCoins (deposit key s) = allCoins s"
proof (cases "Map_get key (activeCacheRects s)")
  case None
  then show ?thesis by (simp add: deposit_def)
next
  case (Some cache)
  show ?thesis
  proof (cases "playerWallet s = []")
    case True
    with Some show ?thesis by (simp add: deposit_def)
  next
    case False
    from assms Some have k: "cellToString (location cache) = key"
      and st: "Map_get key (cacheStates s) = Some (coins cache)"
      by (auto simp: coherent_def)
    have sp: "mset (playerWallet s) = mset (butlast (playerWallet s)) + {#last (playerWallet s)#}"
      using False by (metis append_butlast_last_id mset.simps(1) mset.simps(2) mset_append union_mset_add_mset_right add.right_neutral)
    have "storeCoins (Map_set key (coins cache @ [last (playerWallet s)]) (cacheStates s)) + mset (coins cache)
            = storeCoins (cacheStates s) + mset (coins cache @ [last (playerWallet s)])"
      by (rule storeCoins_Map_set [OF st])
    then have "storeCoins (Map_set key (coins cache @ [last (playerWallet s)]) (cacheStates s))
            = storeCoins (cacheStates s) + {#last (playerWallet s)#}"
      by (simp add: ac_simps)
    then show ?thesis using Some False k sp
      by (simp add: deposit_def allCoins_def saveGameState_def Let_def Array_push_def ac_simps)
  qed
qed

lemma run_append:
  "run d (es @ es') s = (case run d es s of Inl e \<Rightarrow> Inl e | Inr s' \<Rightarrow> run d es' s')"
  by (induction es arbitrary: s) (auto split: sum.splits)

lemma reachable_run: "reachable d s \<Longrightarrow> run d es s = Inr s' \<Longrightarrow> reachable d s'"
  unfolding reachable_def
proof -
  assume "\<exists>item es0 s0. loadGameState d (initialGame item) = Inr s0 \<and> run d es0 s0 = Inr s"
    and r: "run d es s = Inr s'"
  then obtain item es0 s0 where l: "loadGameState d (initialGame item) = Inr s0"
    and r0: "run d es0 s0 = Inr s" by blast
  have "run d (es0 @ es) s0 = Inr s'" using r0 r by (simp add: run_append)
  with l show "\<exists>item es s0. loadGameState d (initialGame item) = Inr s0 \<and> run d es s0 = Inr s'"
    by blast
qed

lemma transfers_run:
  "coherent s \<Longrightarrow> list_all is_transfer es \<Longrightarrow>
     \<exists>s'. run d es s = Inr s' \<and> allCoins s' = allCoins s"
proof (induction es arbitrary: s)
  case Nil
  then show ?case by simp
next
  case (Cons e es)
  from Cons.prems(2) have te: "is_transfer e" and tes: "list_all is_transfer es" by simp_all
  from te obtain key where e: "e = Collect key \<or> e = Deposit key" by (cases e) auto
  then obtain s1 where h: "handle d e s = Inr s1" and a: "allCoins s1 = allCoins s"
    using allCoins_collect [OF Cons.prems(1)] allCoins_deposit [OF Cons.prems(1)] by auto
  have "coherent s1" by (rule coherent_handle [OF Cons.prems(1) h])
  from Cons.IH [OF this tes] obtain s' where "run d es s1 = Inr s'" "allCoins s' = allCoins s1"
    by blast
  with h a show ?case by simp
qed

subsection \<open>Which keys are visible\<close>

lemma mem_getCellsNearPoint:
  "c \<in> set (getCellsNearPoint b p) \<longleftrightarrow>
     \<bar>cell_i c - cell_i (getCellForPoint b p)\<bar> \<le> tileVisibilityRadius b
     \<and> \<bar>cell_j c - cell_j (getCellForPoint b p)\<bar> \<le> tileVisibilityRadius b"
proof -
  let ?o = "getCellForPoint b p" and ?r = "tileVisibilityRadius b"
  have "c \<in> set (getCellsNearPoint b p) \<longleftrightarrow>
        (\<exists>di\<in>{- ?r..?r}. \<exists>dj\<in>{- ?r..?r}. c = \<lparr> cell_i = cell_i ?o + di, cell_j = cell_j ?o + dj \<rparr>)"
    by (auto simp: getCellsNearPoint_def Let_def)
  also have "\<dots> \<longleftrightarrow> \<bar>cell_i c - cell_i ?o\<bar> \<le> ?r \<and> \<bar>cell_j c - cell_j ?o\<bar> \<le> ?r"
  proof
    assume "\<exists>di\<in>{- ?r..?r}. \<exists>dj\<in>{- ?r..?r}. c = \<lparr> cell_i = cell_i ?o + di, cell_j = cell_j ?o + dj \<rparr>"
    then show "\<bar>cell_i c - cell_i ?o\<bar> \<le> ?r \<and> \<bar>cell_j c - cell_j ?o\<bar> \<le> ?r" by auto
  next
    assume a: "\<bar>cell_i c - cell_i ?o\<bar> \<le> ?r \<and> \<bar>cell_j c - cell_j ?o\<bar> \<le> ?r"
    have "c = \<lparr> cell_i = cell_i ?o + (cell_i c - cell_i ?o), cell_j = cell_j ?o + (cell_j c - cell_j ?o) \<rparr>"
      by simp
    moreover have "cell_i c - cell_i ?o \<in> {- ?r..?r}" "cell_j c - cell_j ?o \<in> {- ?r..?r}"
      using a by auto
    ultimately show "\<exists>di\<in>{- ?r..?r}. \<exists>dj\<in>{- ?r..?r}. c = \<lparr> cell_i = cell_i ?o + di, cell_j = cell_j ?o + dj \<rparr>"
      by blast
  qed
  finally show ?thesis .
qed

lemma visible_iff:
  "cellToString c \<in> set (getVisibleCells p) \<longleftrightarrow>
     \<bar>cell_i c - \<lfloor>lat p / TILE_DEGREES\<rfloor>\<bar> \<le> 8 \<and> \<bar>cell_j c - \<lfloor>lng p / TILE_DEGREES\<rfloor>\<bar> \<le> 8"
proof -
  have "cellToString c \<in> set (getVisibleCells p) \<longleftrightarrow> c \<in> set (getCellsNearPoint board p)"
    using cellToString_inj by (auto simp: set_getVisibleCells)
  then show ?thesis
    by (simp add: mem_getCellsNearPoint getCellForPoint_def board_def new_Board_def NEIGHBORHOOD_SIZE_def)
qed

subsection \<open>The sample session\<close>

lemma sampleDeps_inverts: "getCellAtKey_inverts sampleDeps"
  by (simp add: getCellAtKey_inverts_def sampleDeps_def cellOfKey_cellToString)

lemma keyA_eq: "cellToString cellA = keyA"
  by (simp add: cellToString_def cellA_def keyA_def show_int_def show_nat_small show_nat_big digit_char_simps)

lemma keyB_eq: "cellToString cellB = keyB"
  by (simp add: cellToString_def cellB_def keyB_def show_int_def show_nat_small show_nat_big digit_char_simps)

lemma cellOfKey_keyA: "cellOfKey keyA = cellA"
  using cellOfKey_cellToString [of cellA] by (simp add: keyA_eq)

lemma cellOfKey_keyB: "cellOfKey keyB = cellB"
  using cellOfKey_cellToString [of cellB] by (simp add: keyB_eq)

lemma keyA_neq_keyB: "keyA \<noteq> keyB"
  by (simp add: keyA_def keyB_def)

lemma sampleLuck_lucky: "sampleLuck x < CACHE_SPAWN_PROBABILITY \<longleftrightarrow> x = keyA \<or> x = keyB"
  by (simp add: sampleLuck_def CACHE_SPAWN_PROBABILITY_def keyA_def keyB_def)

lemma sampleLuck_A: "\<lfloor>sampleLuck keyA * 100\<rfloor> = 5"
  by (simp add: sampleLuck_def keyA_def)

lemma sampleLuck_B: "\<lfloor>sampleLuck keyB * 100\<rfloor> = 3"
  by (simp add: sampleLuck_def keyA_def keyB_def)

lemma createNewCache_5:
  "createNewCache cell 5 = \<lparr> coins = coinsOf cell [0, 1, 2, 3, 4], serialNumber = 5, location = cell \<rparr>"
  by (simp add: createNewCache_eq coinsOf_def upto_rec1)

lemma createNewCache_3:
  "createNewCache cell 3 = \<lparr> coins = coinsOf cell [0, 1, 2], serialNumber = 3, location = cell \<rparr>"
  by (simp add: createNewCache_eq coinsOf_def upto_rec1)

lemma keyA_visible_iff:
  "keyA \<in> set (getVisibleCells p) \<longleftrightarrow>
     \<bar>369895 - \<lfloor>lat p / TILE_DEGREES\<rfloor>\<bar> \<le> 8 \<and> \<bar>- 1220627 - \<lfloor>lng p / TILE_DEGREES\<rfloor>\<bar> \<le> 8"
  using visible_iff [of cellA p] unfolding keyA_eq by (simp add: cellA_def)

lemma keyB_visible_iff:
  "keyB \<in> set (getVisibleCells p) \<longleftrightarrow>
     \<bar>369895 - \<lfloor>lat p / TILE_DEGREES\<rfloor>\<bar> \<le> 8 \<and> \<bar>- 1220626 - \<lfloor>lng p / TILE_DEGREES\<rfloor>\<bar> \<le> 8"
  using visible_iff [of cellB p] unfolding keyB_eq by (simp add: cellB_def)

lemma visible_up:
  "keyA \<in> set (getVisibleCells \<lparr> lat = lat OAKES_CLASSROOM + TILE_DEGREES, lng = lng OAKES_CLASSROOM + 0 \<rparr>)"
  "keyB \<in> set (getVisibleCells \<lparr> lat = lat OAKES_CLASSROOM + TILE_DEGREES, lng = lng OAKES_CLASSROOM + 0 \<rparr>)"
  by (simp_all add: keyA_visible_iff keyB_visible_iff OAKES_CLASSROOM_def TILE_DEGREES_def)

lemma visible_start:
  "keyA \<in> set (getVisibleCells OAKES_CLASSROOM)" "keyB \<in> set (getVisibleCells OAKES_CLASSROOM)"
  by (simp_all add: keyA_visible_iff keyB_visible_iff OAKES_CLASSROOM_def TILE_DEGREES_def)

lemma sampleDeps_simps: "luck sampleDeps = sampleLuck" "getCellAtKey sampleDeps = cellOfKey"
  by (simp_all add: sampleDeps_def)

text \<open>One tile up from the start: the caches of \<open>cellA\<close> and \<open>cellB\<close> spawn, nothing is saved.\<close>

lemma afterFirstMove_state:
  obtains s1 where "afterFirstMove = Inr s1"
    and "playerWallet s1 = []" and "localStorage s1 = None"
    and "movementHistory s1 = [OAKES_CLASSROOM, \<lparr> lat = lat OAKES_CLASSROOM + TILE_DEGREES, lng = lng OAKES_CLASSROOM + 0 \<rparr>]"
    and "playerMarker s1 = \<lparr> lat = lat OAKES_CLASSROOM + TILE_DEGREES, lng = lng OAKES_CLASSROOM + 0 \<rparr>"
    and "\<And>x. Map_get x (cacheStates s1) =
           (if x = keyA then Some (coinsOf cellA [0, 1, 2, 3, 4])
            else if x = keyB then Some (coinsOf cellB [0, 1, 2]) else None)"
    and "\<And>x. Map_get x (activeCacheRects s1) =
           (if x = keyA then Some \<lparr> coins = coinsOf cellA [0, 1, 2, 3, 4], serialNumber = 5, location = cellA \<rparr>
            else if x = keyB then Some \<lparr> coins = coinsOf cellB [0, 1, 2], serialNumber = 3, location = cellB \<rparr>
            else None)"
proof -
  let ?p = "\<lparr> lat = lat OAKES_CLASSROOM + TILE_DEGREES, lng = lng OAKES_CLASSROOM + 0 \<rparr>"
  let ?t = "(initialGame None)\<lparr> playerMarker := ?p,
               movementHistory := Array_push ?p (movementHistory (initialGame None)) \<rparr>"
  obtain s1 where p: "populateMap sampleDeps ?t = Inr s1"
    and w: "playerWallet s1 = playerWallet ?t" and m: "playerMarker s1 = playerMarker ?t"
    and h: "movementHistory s1 = movementHistory ?t" and l: "localStorage s1 = localStorage ?t"
    and st: "\<And>x. Map_get x (cacheStates s1) =
           (if Map_has x (cacheStates ?t) then Map_get x (cacheStates ?t)
            else if x \<in> set (getVisibleCells (playerMarker ?t)) \<and> luck sampleDeps x < CACHE_SPAWN_PROBABILITY
            then Some (coins (createNewCache (getCellAtKey sampleDeps x) \<lfloor>luck sampleDeps x * 100\<rfloor>))
            else None)"
    and ac: "\<And>x. Map_get x (activeCacheRects s1) =
           (if x \<in> set (getVisibleCells (playerMarker ?t)) then
              (if \<not> Map_has x (cacheStates ?t)
               then (if luck sampleDeps x < CACHE_SPAWN_PROBABILITY
                     then Some (createNewCache (getCellAtKey sampleDeps x) \<lfloor>luck sampleDeps x * 100\<rfloor>)
                     else Map_get x (activeCacheRects ?t))
               else (if \<not> Map_has x (activeCacheRects ?t)
                     then Some \<lparr> coins = the (Map_get x (cacheStates ?t)),
                                 serialNumber = int (length (the (Map_get x (cacheStates ?t)))),
                                 location = getCellAtKey sampleDeps x \<rparr>
                     else Map_get x (activeCacheRects ?t)))
            else None)"
    by (rule populateMap_lookup [OF sampleDeps_inverts, of ?t]) blast
  have r: "afterFirstMove = Inr s1"
    using p by (simp add: afterFirstMove_def movePlayer_def Let_def initialGame_def)
  have st': "Map_get x (cacheStates s1) =
           (if x = keyA then Some (coinsOf cellA [0, 1, 2, 3, 4])
            else if x = keyB then Some (coinsOf cellB [0, 1, 2]) else None)" for x
    unfolding st [of x]
    using visible_up keyA_neq_keyB
    by (simp add: initialGame_def Map_has_def sampleDeps_simps sampleLuck_lucky sampleLuck_A
        sampleLuck_B cellOfKey_keyA cellOfKey_keyB createNewCache_5 createNewCache_3)
  have ac': "Map_get x (activeCacheRects s1) =
           (if x = keyA then Some \<lparr> coins = coinsOf cellA [0, 1, 2, 3, 4], serialNumber = 5, location = cellA \<rparr>
            else if x = keyB then Some \<lparr> coins = coinsOf cellB [0, 1, 2], serialNumber = 3, location = cellB \<rparr>
            else None)" for x
    unfolding ac [of x]
    using visible_up keyA_neq_keyB
    by (simp add: initialGame_def Map_has_def sampleDeps_simps sampleLuck_lucky sampleLuck_A
        sampleLuck_B cellOfKey_keyA cellOfKey_keyB createNewCache_5 createNewCache_3)
  show thesis
    by (rule that [OF r _ _ _ _ st' ac']) (simp_all add: w m h l initialGame_def Array_push_def)
qed

lemma initial_reachable: "reachable d (initialGame None)"
  unfolding reachable_def
  by (rule exI [of _ None], rule exI [of _ "[]"], rule exI [of _ "initialGame None"])
     (simp add: loadGameState_def initialGame_def)

lemma afterFirstMove_reachable: "afterFirstMove = Inr s1 \<Longrightarrow> reachable sampleDeps s1"
  unfolding afterFirstMove_def by (rule reachable_run [OF initial_reachable])

subsection \<open>The store has one entry for a key\<close>


lemma fold_Map_set_self:
  assumes "\<And>k v. (k, v) \<in> set entries \<Longrightarrow> Map_get k m = Some v"
  shows "fold (\<lambda>entry m. Map_set (fst entry) (snd entry) m) entries m = m"
  using assms
proof (induction entries)
  case Nil
  then show ?case by simp
next
  case (Cons e es)
  have "Map_get (fst e) m = Some (snd e)" using Cons.prems [of "fst e" "snd e"] by simp
  then have "Map_set (fst e) (snd e) m = m" by (rule Map_set_same)
  with Cons show ?case by simp
qed

lemma fold_Map_set_distinct:
  "distinct (map fst m) \<Longrightarrow> fold (\<lambda>entry m. Map_set (fst entry) (snd entry) m) m m = m"
  by (rule fold_Map_set_self) (rule Map_get_distinct)












text \<open>
  Collect and deposit conserve the coins. In every reachable state, every sequence of collect
  and deposit events runs to its end and leaves the multiset of all coins (those of the wallet
  and those of every entry of the store, rendered or not) as it was: no coin is made, lost or
  held twice by a transfer, and the number of coins stays the same.
\<close>

theorem transfers_conserve_coins:
  assumes "reachable d s" and "list_all is_transfer es"
  shows "\<exists>s'. run d es s = Inr s' \<and> reachable d s'
            \<and> allCoins s' = allCoins s \<and> coinCount s' = coinCount s"
proof -
  from transfers_run [OF reachable_coherent [OF assms(1)] assms(2)]
  obtain s' where r: "run d es s = Inr s'" and a: "allCoins s' = allCoins s" by blast
  have "reachable d s'" by (rule reachable_run [OF assms(1) r])
  with r a show ?thesis by (auto simp: coinCount_allCoins)
qed

theorem transfers_conserve_coins_witness:
  "reachable sampleDeps (projr afterFirstMove)
   \<and> list_all is_transfer [Collect keyA, Deposit keyB]
   \<and> (\<exists>s'. run sampleDeps [Collect keyA, Deposit keyB] (projr afterFirstMove) = Inr s'
            \<and> reachable sampleDeps s'
            \<and> allCoins s' = allCoins (projr afterFirstMove)
            \<and> coinCount s' = coinCount (projr afterFirstMove))"
proof -
  obtain s1 where r1: "afterFirstMove = Inr s1" by (rule afterFirstMove_state)
  have p1: "projr afterFirstMove = s1" unfolding r1 by simp
  have a: "reachable sampleDeps (projr afterFirstMove)"
    unfolding p1 by (rule afterFirstMove_reachable [OF r1])
  have b: "list_all is_transfer [Collect keyA, Deposit keyB]" by simp
  from transfers_conserve_coins [OF a b] a b show ?thesis by blast
qed

lemma resetGame_yes:
  assumes "map_option toLowerCase c = Some ''yes''" and "movementHistory s \<noteq> []"
    and "distinct (map fst (cacheStates s))"
  shows "resetGame d c s =
     populateMap d (saveGameState (s\<lparr> playerWallet := [], activeCacheRects := [],
                                       movementHistory := [hd (movementHistory s)],
                                       playerMarker := OAKES_CLASSROOM \<rparr>))"
proof -
  have "resetGame d c s = (if movementHistory s = [] then Inl IllTyped
            else populateMap d
                   (saveGameState
                      (s\<lparr> playerWallet := [],
                          cacheStates := fold (\<lambda>entry m. Map_set (fst entry) (snd entry) m)
                                              (cacheStates s) (cacheStates s),
                          activeCacheRects := [],
                          movementHistory := take 1 (movementHistory s),
                          playerMarker := OAKES_CLASSROOM \<rparr>)))"
    unfolding resetGame_def using assms(1) by (rule if_P)
  moreover have "take 1 (movementHistory s) = [hd (movementHistory s)]"
    using assms(2) by (cases "movementHistory s") simp_all
  ultimately show ?thesis using assms(2,3) by (simp add: fold_Map_set_distinct)
qed

lemma yes_confirms: "map_option toLowerCase (Some ''yes'') = Some ''yes''"
  by (simp add: toLowerCase_def)



subsection \<open>Leaving and coming back\<close>





subsection \<open>When the state is saved\<close>

text \<open>A move, by a button or by the position sensor, leaves the stored snapshot as it is.\<close>

lemma movePlayer_keeps_localStorage:
  "movePlayer d a b s = Inr s' \<Longrightarrow> localStorage s' = localStorage s"
  by (auto simp: movePlayer_def Let_def dest: populateMap_frame)

lemma watchPosition_keeps_localStorage:
  "watchPosition_success d a b s = Inr s' \<Longrightarrow> localStorage s' = localStorage s"
  by (auto simp: watchPosition_success_def Let_def dest: populateMap_frame)


text \<open>
  The reset saves, but before it calls \<^verbatim>\<open>populateMap\<close>: a cache that spawns in that call is
  in the store and not in the snapshot. Here the reset is the first event of a fresh session.
\<close>

lemma resetGame_saves_before_refresh:
  "\<not> isl (resetGame sampleDeps (Some ''yes'') (initialGame None))
   \<and> localStorage (projr (resetGame sampleDeps (Some ''yes'') (initialGame None)))
       = Some (JSONText (gameState_json (initialGame None)))
   \<and> cacheStates (initialGame None) = []
   \<and> Map_get keyA (cacheStates (projr (resetGame sampleDeps (Some ''yes'') (initialGame None))))
       = Some (coinsOf cellA [0, 1, 2, 3, 4])"
proof -
  let ?t = "saveGameState ((initialGame None)\<lparr> playerWallet := [], activeCacheRects := [],
                movementHistory := [hd (movementHistory (initialGame None))],
                playerMarker := OAKES_CLASSROOM \<rparr>)"
  have c: "?t = (initialGame None)\<lparr> localStorage := Some (JSONText (gameState_json (initialGame None))) \<rparr>"
    by (simp add: initialGame_def saveGameState_def)
  have r: "resetGame sampleDeps (Some ''yes'') (initialGame None) = populateMap sampleDeps ?t"
    by (rule resetGame_yes [OF yes_confirms]) (simp_all add: initialGame_def)
  obtain s' where p: "populateMap sampleDeps ?t = Inr s'"
    and l: "localStorage s' = localStorage ?t"
    and st: "\<And>x. Map_get x (cacheStates s') =
           (if Map_has x (cacheStates ?t) then Map_get x (cacheStates ?t)
            else if x \<in> set (getVisibleCells (playerMarker ?t)) \<and> luck sampleDeps x < CACHE_SPAWN_PROBABILITY
            then Some (coins (createNewCache (getCellAtKey sampleDeps x) \<lfloor>luck sampleDeps x * 100\<rfloor>))
            else None)"
    by (rule populateMap_lookup [OF sampleDeps_inverts, of ?t]) blast
  have "Map_get keyA (cacheStates s') = Some (coinsOf cellA [0, 1, 2, 3, 4])"
    unfolding st [of keyA] using visible_start
    by (simp add: saveGameState_def initialGame_def Map_has_def sampleDeps_simps sampleLuck_lucky
        sampleLuck_A cellOfKey_keyA createNewCache_5)
  moreover have "localStorage s' = Some (JSONText (gameState_json (initialGame None)))"
    unfolding l c by simp
  ultimately show ?thesis unfolding r p by (simp add: initialGame_def)
qed

subsection \<open>Loading what is not a snapshot\<close>

text \<open>
  Claim C8 as stated fails: \<^verbatim>\<open>loadGameState\<close> has no handler around \<^verbatim>\<open>JSON.parse\<close> and
  does not look at the shape of what it parsed. A stored string that is no JSON text ends the
  load with a SyntaxError; the JSON texts \<^verbatim>\<open>{}\<close> and \<^verbatim>\<open>null\<close> end it with a TypeError.
\<close>

theorem loadGameState_malformed_throws:
  "loadGameState sampleDeps (initialGame (Some NotJSON)) = Inl SyntaxError
   \<and> loadGameState sampleDeps (initialGame (Some (JSONText (JObj [])))) = Inl TypeError
   \<and> loadGameState sampleDeps (initialGame (Some (JSONText JNull))) = Inl TypeError"
  by (simp add: loadGameState_def initialGame_def loadGameState_throws_def)

text \<open>
  Claim C8, amended. Without a stored string, or with the empty string, \<^verbatim>\<open>loadGameState\<close>
  changes nothing, and the session stays at its defaults: empty wallet, empty store, no
  rectangle, the player at the start location and a history that holds the start location
  only. With a stored string that is no JSON text the load throws a SyntaxError, whatever the
  state.
\<close>

theorem loadGameState_absent_or_malformed:
  "loadGameState d (initialGame None) = Inr (initialGame None)
   \<and> loadGameState d (initialGame (Some EmptyString)) = Inr (initialGame (Some EmptyString))
   \<and> playerWallet (initialGame item) = []
   \<and> cacheStates (initialGame item) = []
   \<and> activeCacheRects (initialGame item) = []
   \<and> playerMarker (initialGame item) = OAKES_CLASSROOM
   \<and> movementHistory (initialGame item) = [OAKES_CLASSROOM]
   \<and> loadGameState d (s\<lparr> localStorage := Some NotJSON \<rparr>) = Inl SyntaxError"
  by (simp add: loadGameState_def initialGame_def)

theorem loadGameState_absent_or_malformed_witness:
  "loadGameState sampleDeps (initialGame None) = Inr (initialGame None)
   \<and> movementHistory (initialGame None) = [OAKES_CLASSROOM]
   \<and> loadGameState sampleDeps ((initialGame None)\<lparr> localStorage := Some NotJSON \<rparr>) = Inl SyntaxError"
  using loadGameState_absent_or_malformed [of sampleDeps None "initialGame None"] by simp

subsection \<open>The identity of a coin\<close>







subsection \<open>Saving and loading\<close>














subsection \<open>The reset\<close>

lemma resetGame_not_confirmed:
  "map_option toLowerCase confirmation \<noteq> Some ''yes'' \<Longrightarrow> resetGame d confirmation s = Inr s"
  unfolding resetGame_def by (rule if_not_P)



end
